theory Spec2Isabelle
  imports Main "HOL-Library.Word"
begin

unbundle bit_operations_syntax

section \<open>Data model (spotlight.h)\<close>

text \<open>
  The structs of \<^verbatim>\<open>spotlight.h\<close> as records. \<^verbatim>\<open>quint16\<close>/\<^verbatim>\<open>uint16_t\<close> is a
  16-bit word, \<^verbatim>\<open>uint8_t\<close> an 8-bit word, \<^verbatim>\<open>QString\<close> a \<open>string\<close> (the empty
  \<^verbatim>\<open>QString\<close> is \<open>[]\<close>), \<^verbatim>\<open>QList\<close> a list, a \<^verbatim>\<open>shared_ptr\<close> that may be null an
  \<open>option\<close>. Field names that clash between two structs, or with a HOL constant,
  carry a prefix.
\<close>

type_synonym quint16 = "16 word"
type_synonym quint64 = "64 word"

record DeviceId =
  vendorId :: quint16
  productId :: quint16
  phys :: string

definition DeviceId_default :: DeviceId where
  "DeviceId_default = \<lparr>vendorId = 0, productId = 0, phys = []\<rparr>"

record SupportedDevice =
  sup_vendorId :: quint16
  sup_productId :: quint16
  isBluetooth :: bool
  sup_name :: string

text \<open>\<^verbatim>\<open>linux/input.h\<close>: one kernel input record.\<close>

record input_event =
  ev_time :: "quint64 \<times> quint64"
  ev_type :: quint16
  ev_code :: quint16
  ev_value :: "32 word"

definition EV_SYN :: quint16 where "EV_SYN = 0"
definition EV_REL :: quint16 where "EV_REL = 2"
definition EV_REP :: quint16 where "EV_REP = 20"
definition REL_X :: quint16 where "REL_X = 0"
definition REL_Y :: quint16 where "REL_Y = 1"
definition EAGAIN :: int where "EAGAIN = 11"

text \<open>\<^verbatim>\<open>InputBuffer<Size, T>\<close>: the fixed array \<^verbatim>\<open>data_\<close> and the write position \<^verbatim>\<open>pos_\<close>.\<close>

record InputBuffer =
  buf_data :: "nat \<Rightarrow> input_event"
  buf_pos :: nat

definition buf_size :: nat where
  "buf_size = 12"

datatype ConnectionMode = ReadOnly | WriteOnly | ReadWrite

text \<open>
  \<^verbatim>\<open>SubDeviceConnection\<close>. The default constructor leaves \<open>mode\<close> unset (\<open>None\<close>).
  \<open>notifier\<close> is \<open>None\<close> for a null pointer and \<open>Some b\<close> for a socket notifier
  whose \<^verbatim>\<open>isEnabled()\<close> is \<open>b\<close>. \<open>im\<close> is the identity of the shared input mapper.
\<close>

record SubDeviceConnection =
  mode :: "ConnectionMode option"
  fd :: int
  grabbed :: bool
  inputBuffer :: InputBuffer
  im :: "nat option"
  notifier :: "bool option"

datatype SubDeviceType = Event | Hidraw

text \<open>\<^verbatim>\<open>DeviceFlag\<close> bits, combined in a \<^verbatim>\<open>uint32_t\<close>.\<close>

definition NoFlags :: "32 word" where "NoFlags = 0"
definition NonBlocking :: "32 word" where "NonBlocking = 1"
definition SynEvents :: "32 word" where "SynEvents = 2"
definition RepEvents :: "32 word" where "RepEvents = 4"
definition RelativeEvents :: "32 word" where "RelativeEvents = 8"

record SubDevice =
  DeviceFile :: string
  subdev_phys :: string
  subdev_type :: SubDeviceType
  deviceFlags :: "32 word"
  connection :: "SubDeviceConnection option"
  hasRelativeEvents :: bool
  DeviceReadable :: bool
  DeviceWritable :: bool

datatype BusType = Unknown | Usb | Bluetooth

record Device =
  name :: string
  userName :: string
  dev_id :: DeviceId
  busType :: BusType
  subDevices :: "SubDevice list"
  eventIM :: "nat option"
  hidrwNode :: int

record ScanResult =
  devices :: "Device list"
  numDevicesReadable :: quint16
  numDevicesWritable :: quint16
  errorMessages :: "string list"

definition ScanResult_default :: ScanResult where
  "ScanResult_default =
     \<lparr>devices = [], numDevicesReadable = 0, numDevicesWritable = 0, errorMessages = []\<rparr>"

section \<open>Supported devices (spotlight.cc, anonymous namespace)\<close>

definition supportedDefaultDevices :: "SupportedDevice list" where
  "supportedDefaultDevices =
     [\<lparr>sup_vendorId = 0x46d, sup_productId = 0xc53e, isBluetooth = False,
        sup_name = ''Logitech Spotlight (USB)''\<rparr>,
      \<lparr>sup_vendorId = 0x46d, sup_productId = 0xb503, isBluetooth = True,
        sup_name = ''Logitech Spotlight (Bluetooth)''\<rparr>]"

text \<open>
  \<^verbatim>\<open>isExtraDeviceSupported\<close> and \<^verbatim>\<open>getExtraDeviceName\<close> are only declared in
  \<^verbatim>\<open>spotlight.cc\<close> (``definition in generated source''); the model takes both as a
  parameter.
\<close>

record extra_devices =
  isExtraDeviceSupported :: "quint16 \<Rightarrow> quint16 \<Rightarrow> bool"
  getExtraDeviceName :: "quint16 \<Rightarrow> quint16 \<Rightarrow> string"

definition matches :: "quint16 \<Rightarrow> quint16 \<Rightarrow> SupportedDevice \<Rightarrow> bool" where
  "matches vid pid d = (vid = sup_vendorId d \<and> pid = sup_productId d)"

definition isDeviceSupported :: "extra_devices \<Rightarrow> quint16 \<Rightarrow> quint16 \<Rightarrow> bool" where
  "isDeviceSupported gen vid pid =
     (find (matches vid pid) supportedDefaultDevices \<noteq> None \<or> isExtraDeviceSupported gen vid pid)"

definition isAdditionallySupported :: "quint16 \<Rightarrow> quint16 \<Rightarrow> SupportedDevice list \<Rightarrow> bool" where
  "isAdditionallySupported vid pid devs = (find (matches vid pid) devs \<noteq> None)"

definition getUserDeviceName ::
  "extra_devices \<Rightarrow> quint16 \<Rightarrow> quint16 \<Rightarrow> SupportedDevice list \<Rightarrow> string" where
  "getUserDeviceName gen vid pid additionalDevices =
     (case find (matches vid pid) supportedDefaultDevices of
        Some d \<Rightarrow> if sup_name d \<noteq> [] then sup_name d
                  else if getExtraDeviceName gen vid pid \<noteq> [] then getExtraDeviceName gen vid pid
                  else (case find (matches vid pid) additionalDevices of
                          Some a \<Rightarrow> if sup_name a \<noteq> [] then sup_name a else []
                        | None \<Rightarrow> [])
      | None \<Rightarrow>
          if getExtraDeviceName gen vid pid \<noteq> [] then getExtraDeviceName gen vid pid
          else (case find (matches vid pid) additionalDevices of
                  Some a \<Rightarrow> if sup_name a \<noteq> [] then sup_name a else []
                | None \<Rightarrow> []))"

section \<open>The device tree read by the scanner\<close>

text \<open>
  \<^verbatim>\<open>scanForDevices\<close> reads \<^verbatim>\<open>/sys/bus/hid/devices\<close> through Qt. The fixture records
  what those reads return, in the order the directory iterators deliver them:
  per HID directory whether \<^verbatim>\<open>uevent\<close> exists and the \<^verbatim>\<open>Device\<close> that
  \<^verbatim>\<open>deviceFromUEventFile\<close> returns for it (a default \<^verbatim>\<open>Device\<close> when the file
  cannot be opened), per input node the values of \<^verbatim>\<open>readUShortFromDeviceFile\<close>,
  \<^verbatim>\<open>readULongLongFromDeviceFile\<close>, \<^verbatim>\<open>readStringFromDeviceFile\<close> and
  \<^verbatim>\<open>readPropertyFromDeviceFile(.., "DEVNAME")\<close>, and the permission bits of every
  device file. \<open>input_exists\<close> and \<open>hidraw_exists\<close> are the values of
  \<^verbatim>\<open>exists() || isExecutable()\<close> for the two sub-directories.
\<close>

record node_dir =
  fileName :: string
  DEVNAME :: string

record input_node =
  id_vendor :: quint16
  id_product :: quint16
  event_dirs :: "node_dir list"
  phys_file :: string
  capabilities_ev :: quint64
  capabilities_rel :: quint64

record hid_dir =
  uevent_exists :: bool
  uevent_device :: Device
  input_exists :: bool
  input_nodes :: "input_node list"
  hidraw_exists :: bool
  hidraw_nodes :: "node_dir list"

record sysfs =
  root_exists :: bool
  root_isExecutable :: bool
  hid_dirs :: "hid_dir list"
  isReadable :: "string \<Rightarrow> bool"
  isWritable :: "string \<Rightarrow> bool"

definition startsWith :: "string \<Rightarrow> string \<Rightarrow> bool" where
  "startsWith s p = (take (length p) s = p)"

text \<open>\<^verbatim>\<open>QDir(dir).filePath(f)\<close>: an absolute \<open>f\<close> is returned as it is.\<close>

definition filePath :: "string \<Rightarrow> string \<Rightarrow> string" where
  "filePath dir f =
     (if startsWith f ''/'' then f
      else if dir \<noteq> [] \<and> last dir = CHR ''/'' then dir @ f
      else dir @ ''/'' @ f)"

section \<open>scanForDevices\<close>

text \<open>
  The inner \<^verbatim>\<open>dirIt\<close> loop: the first directory named \<^verbatim>\<open>event*\<close> whose
  \<^verbatim>\<open>DEVNAME\<close> is not empty gives the device file; each later \<^verbatim>\<open>event*\<close> entry
  overwrites \<open>DeviceFile\<close> before the test.
\<close>

fun find_event_file :: "string \<Rightarrow> node_dir list \<Rightarrow> string" where
  "find_event_file cur [] = cur"
| "find_event_file cur (e # es) =
     (if \<not> startsWith (fileName e) ''event'' then find_event_file cur es
      else if DEVNAME e \<noteq> [] then filePath ''/dev'' (DEVNAME e)
      else find_event_file (DEVNAME e) es)"

definition SubDevice_default :: "SubDeviceType \<Rightarrow> SubDevice" where
  "SubDevice_default t =
     \<lparr>DeviceFile = [], subdev_phys = [], subdev_type = t, deviceFlags = NoFlags,
      connection = None, hasRelativeEvents = False, DeviceReadable = False,
      DeviceWritable = False\<rparr>"

text \<open>
  The \<^verbatim>\<open>inputIt\<close> loop. A vendor/product mismatch leaves the loop (\<^verbatim>\<open>break\<close>); a
  node without device file is skipped (\<^verbatim>\<open>continue\<close>).
\<close>

fun scan_input_nodes :: "sysfs \<Rightarrow> DeviceId \<Rightarrow> input_node list \<Rightarrow> SubDevice list" where
  "scan_input_nodes fs rid [] = []"
| "scan_input_nodes fs rid (n # ns) =
     (if id_vendor n \<noteq> vendorId rid \<or> id_product n \<noteq> productId rid then []
      else
        let file = find_event_file [] (event_dirs n) in
        if file = [] then scan_input_nodes fs rid ns
        else
          let hasRelativeEv = (capabilities_ev n AND push_bit (unat EV_REL) 1 \<noteq> 0);
              hasRelXEvents = (capabilities_rel n AND push_bit (unat REL_X) 1 \<noteq> 0);
              hasRelYEvents = (capabilities_rel n AND push_bit (unat REL_Y) 1 \<noteq> 0)
          in (SubDevice_default Event)
               \<lparr>DeviceFile := file, subdev_phys := phys_file n,
                hasRelativeEvents := hasRelativeEv \<and> hasRelXEvents \<and> hasRelYEvents,
                DeviceReadable := isReadable fs file,
                DeviceWritable := isWritable fs file\<rparr>
             # scan_input_nodes fs rid ns)"

fun scan_hidraw_nodes :: "sysfs \<Rightarrow> node_dir list \<Rightarrow> SubDevice list" where
  "scan_hidraw_nodes fs [] = []"
| "scan_hidraw_nodes fs (h # hs) =
     (if \<not> startsWith (fileName h) ''hidraw'' then scan_hidraw_nodes fs hs
      else if DEVNAME h \<noteq> [] then
        (let file = filePath ''/dev'' (DEVNAME h)
         in (SubDevice_default Hidraw)
              \<lparr>DeviceFile := file, DeviceReadable := isReadable fs file,
               DeviceWritable := isWritable fs file\<rparr>
            # scan_hidraw_nodes fs hs)
      else scan_hidraw_nodes fs hs)"

text \<open>
  \<^verbatim>\<open>std::find_if\<close> as the position of the first match, the length of the list for
  \<^verbatim>\<open>end()\<close>.
\<close>

fun find_if :: "('a \<Rightarrow> bool) \<Rightarrow> 'a list \<Rightarrow> nat" where
  "find_if P [] = 0"
| "find_if P (x # xs) = (if P x then 0 else Suc (find_if P xs))"

text \<open>
  One pass of the \<^verbatim>\<open>hidIt\<close> loop body over the devices collected so far.
  \<open>rootDevice\<close> is a reference into the list: the new sub-devices are appended to
  the entry in place.
\<close>

definition sub_nodes :: "sysfs \<Rightarrow> DeviceId \<Rightarrow> hid_dir \<Rightarrow> SubDevice list" where
  "sub_nodes fs rid d =
     (if input_exists d then scan_input_nodes fs rid (input_nodes d)
      else if hidraw_exists d then scan_hidraw_nodes fs (hidraw_nodes d)
      else [])"

definition accepted :: "extra_devices \<Rightarrow> SupportedDevice list \<Rightarrow> hid_dir \<Rightarrow> bool" where
  "accepted gen additionalDevices d =
     (uevent_exists d
      \<and> \<not> (vendorId (dev_id (uevent_device d)) = 0 \<or> productId (dev_id (uevent_device d)) = 0)
      \<and> \<not> (\<not> isDeviceSupported gen (vendorId (dev_id (uevent_device d)))
                 (productId (dev_id (uevent_device d)))
            \<and> \<not> isAdditionallySupported (vendorId (dev_id (uevent_device d)))
                 (productId (dev_id (uevent_device d))) additionalDevices))"

definition scan_hid_dir ::
  "extra_devices \<Rightarrow> sysfs \<Rightarrow> SupportedDevice list \<Rightarrow> Device list \<Rightarrow> hid_dir \<Rightarrow> Device list" where
  "scan_hid_dir gen fs additionalDevices devs d =
     (if \<not> accepted gen additionalDevices d then devs
      else
        let newDevice = uevent_device d;
            find_it = find_if (\<lambda>existingDevice. dev_id existingDevice = dev_id newDevice) devs;
            devs1 = (if find_it = length devs
                     then devs @ [newDevice\<lparr>userName :=
                            getUserDeviceName gen (vendorId (dev_id newDevice))
                              (productId (dev_id newDevice)) additionalDevices\<rparr>]
                     else devs);
            rootDevice = devs1 ! find_it
        in devs1[find_it := rootDevice\<lparr>subDevices :=
                   subDevices rootDevice @ sub_nodes fs (dev_id rootDevice) d\<rparr>])"

definition allReadable :: "Device \<Rightarrow> bool" where
  "allReadable dev = list_all (\<lambda>subDevice. DeviceFile subDevice = [] \<or> DeviceReadable subDevice)
                       (subDevices dev)"

definition allWriteable :: "Device \<Rightarrow> bool" where
  "allWriteable dev = list_all (\<lambda>subDevice. DeviceFile subDevice = [] \<or> DeviceWritable subDevice)
                        (subDevices dev)"

definition hidDevicePath :: string where
  "hidDevicePath = ''/sys/bus/hid/devices''"

definition scanForDevices :: "extra_devices \<Rightarrow> sysfs \<Rightarrow> SupportedDevice list \<Rightarrow> ScanResult" where
  "scanForDevices gen fs additionalDevices =
     (if \<not> root_exists fs then
        ScanResult_default\<lparr>errorMessages :=
          [''HID device path '' @ [CHR 0x27] @ hidDevicePath @ [CHR 0x27] @ '' does not exist.'']\<rparr>
      else if \<not> root_isExecutable fs then
        ScanResult_default\<lparr>errorMessages :=
          [''HID device path '' @ [CHR 0x27] @ hidDevicePath @ [CHR 0x27] @ '': Cannot list files.'']\<rparr>
      else
        let devs = foldl (scan_hid_dir gen fs additionalDevices) [] (hid_dirs fs)
        in \<lparr>devices = devs,
            numDevicesReadable = foldl (\<lambda>n dev. n + (if allReadable dev then 1 else 0)) 0 devs,
            numDevicesWritable = foldl (\<lambda>n dev. n + (if allWriteable dev then 1 else 0)) 0 devs,
            errorMessages = []\<rparr>)"

section \<open>Effects and the operating system\<close>

text \<open>
  Functions of \<^verbatim>\<open>Spotlight\<close> return, besides their result and the new state, the
  list of effects they performed, in order: the Qt signals they emitted (named as in
  \<^verbatim>\<open>spotlight.h\<close>), the device files they opened, closed and wrote, and the
  calls they made to the shared \<^verbatim>\<open>InputMapper\<close>, to the \<^verbatim>\<open>VirtualDevice\<close>
  and to the spot timer.
\<close>

datatype effect =
    deviceConnected DeviceId string
  | subDeviceConnected DeviceId string string
  | anySpotlightDeviceConnectedChanged bool
  | spotActiveChanged bool
  | Call_open string ConnectionMode
  | Call_close int
  | Call_write int "8 word list"
  | Call_addEvents "input_event list"
  | Call_emitEvents "input_event list"
  | Call_resetState
  | Call_activeTimer_start

text \<open>
  What the system calls return: \<^verbatim>\<open>::open\<close> (a negative value on failure), the
  \<^verbatim>\<open>EVIOCGBIT\<close> queries (\<open>None\<close> for a negative return of the first; the
  bitmask is an \<^verbatim>\<open>unsigned long\<close>), the return value of \<^verbatim>\<open>EVIOCGRAB\<close>, whether
  \<^verbatim>\<open>O_NONBLOCK\<close> is set after \<^verbatim>\<open>fcntl\<close>, and the return value of \<^verbatim>\<open>::write\<close>.
\<close>

record os_env =
  sys_open :: "string \<Rightarrow> ConnectionMode \<Rightarrow> int"
  ioctl_EVIOCGBIT_0 :: "int \<Rightarrow> quint64 option"
  ioctl_EVIOCGBIT_REL :: "int \<Rightarrow> quint64"
  ioctl_EVIOCGRAB :: "int \<Rightarrow> int"
  fcntl_O_NONBLOCK :: "int \<Rightarrow> bool"
  sys_write :: "int \<Rightarrow> 8 word list \<Rightarrow> int"

text \<open>
  The members of \<^verbatim>\<open>Spotlight\<close>. \<open>m_virtualDevice\<close> tells whether the pointer is
  non-null, \<open>m_activeTimer_isActive\<close> is the state of the single-shot spot timer,
  \<open>im_count\<close> numbers the \<^verbatim>\<open>InputMapper\<close> objects created so far, and
  \<open>deferred\<close> holds the device paths of the pending
  \<^verbatim>\<open>QTimer::singleShot(0, ..)\<close> calls of \<^verbatim>\<open>removeSubDeviceConnection\<close>.
\<close>

record Spotlight =
  additionalDevices :: "SupportedDevice list"
  m_activeTimer_isActive :: bool
  m_spotActive :: bool
  m_device :: "Device option"
  m_virtualDevice :: bool
  im_count :: nat
  deferred :: "string list"

definition anySpotlightDeviceConnected :: "Spotlight \<Rightarrow> bool" where
  "anySpotlightDeviceConnected s = (if m_device s \<noteq> None then True else False)"

section \<open>vibrateDevice and sendDatatoDevice\<close>

definition sendDatatoDevice ::
  "os_env \<Rightarrow> Spotlight \<Rightarrow> 8 word list \<Rightarrow> nat \<Rightarrow> int \<times> effect list" where
  "sendDatatoDevice os s data data_len =
     (if \<not> anySpotlightDeviceConnected s then (- 1, [])
      else case m_device s of
        None \<Rightarrow> (- 1, [])
      | Some d \<Rightarrow>
          if hidrwNode d \<noteq> 0
          then (sys_write os (hidrwNode d) (take data_len data),
                [Call_write (hidrwNode d) (take data_len data)])
          else (- 1, []))"

definition vibration_data :: "8 word \<Rightarrow> 8 word list" where
  "vibration_data strength =
     (let strength = (if strength < 64 then 64 else strength)
      in [0x10, 0x01, 0x09, 0x11, 0x03, 0xe8, strength])"

definition vibrateDevice :: "os_env \<Rightarrow> Spotlight \<Rightarrow> 8 word \<Rightarrow> int \<times> effect list" where
  "vibrateDevice os s strength = sendDatatoDevice os s (vibration_data strength) 7"

section \<open>removeSubDeviceConnection\<close>

text \<open>
  The \<^verbatim>\<open>while (it != m_device->subDevices.end())\<close> loop, with the iterator as an
  index. The body erases the entry and leaves the loop when the device file matches;
  it has no other statement, so the iterator is the same at the next test. \<open>None\<close>
  is a loop that does not return.
\<close>

partial_function (option) removeSubDeviceConnection_loop ::
  "nat \<Rightarrow> string \<Rightarrow> SubDevice list \<Rightarrow> SubDevice list option" where
  "removeSubDeviceConnection_loop it file subDevs =
     (if it \<noteq> length subDevs then
        (if DeviceFile (subDevs ! it) = file
         then Some (take it subDevs @ drop (Suc it) subDevs)
         else removeSubDeviceConnection_loop it file subDevs)
      else Some subDevs)"

declare removeSubDeviceConnection_loop.simps [code]

definition removeSubDeviceConnection :: "Spotlight \<Rightarrow> string \<Rightarrow> Spotlight option" where
  "removeSubDeviceConnection s file =
     (case m_device s of
        None \<Rightarrow> Some s
      | Some d \<Rightarrow>
          if length (subDevices d) = 0 then Some s
          else (case removeSubDeviceConnection_loop 0 file (subDevices d) of
                  None \<Rightarrow> None
                | Some subDevs \<Rightarrow> Some (s\<lparr>m_device := Some (d\<lparr>subDevices := subDevs\<rparr>)\<rparr>)))"

section \<open>Opening sub-device connections\<close>

definition input_event_default :: input_event where
  "input_event_default = \<lparr>ev_time = (0, 0), ev_type = 0, ev_code = 0, ev_value = 0\<rparr>"

definition InputBuffer_default :: InputBuffer where
  "InputBuffer_default = \<lparr>buf_data = (\<lambda>_. input_event_default), buf_pos = 0\<rparr>"

definition SubDeviceConnection_default :: SubDeviceConnection where
  "SubDeviceConnection_default =
     \<lparr>mode = None, fd = 0, grabbed = False, inputBuffer = InputBuffer_default,
      im = None, notifier = None\<rparr>"

text \<open>
  \<^verbatim>\<open>openEventSubDeviceConnection\<close> returns the connection; the sub-device is passed
  by reference and gets its flags. A \<^verbatim>\<open>QSocketNotifier\<close> is enabled when it is
  created. Its \<^verbatim>\<open>destroyed\<close> handler closes the descriptor when the last owner
  of the connection lets go of it, for instance when a sub-device that holds a hidraw
  connection is given a new one; the effect lists do not record that
  \<^verbatim>\<open>::close\<close>, nor the \<^verbatim>\<open>ioctl\<close> and \<^verbatim>\<open>fcntl\<close> calls.
\<close>

definition openEventSubDeviceConnection ::
  "os_env \<Rightarrow> Spotlight \<Rightarrow> SubDevice \<Rightarrow> SubDeviceConnection \<times> SubDevice \<times> effect list" where
  "openEventSubDeviceConnection os s subdev =
     (let devicePath = DeviceFile subdev;
          evfd = sys_open os devicePath ReadOnly
      in if evfd < 0 then (SubDeviceConnection_default, subdev, [Call_open devicePath ReadOnly])
         else case ioctl_EVIOCGBIT_0 os evfd of
           None \<Rightarrow> (SubDeviceConnection_default, subdev,
                     [Call_open devicePath ReadOnly, Call_close evfd])
         | Some bitmask \<Rightarrow>
             let isGrabbed = (if m_virtualDevice s then ioctl_EVIOCGRAB os evfd = 0 else False);
                 f1 = (if bitmask AND push_bit (unat EV_SYN) 1 \<noteq> 0
                       then deviceFlags subdev OR SynEvents else deviceFlags subdev);
                 f2 = (if bitmask AND push_bit (unat EV_REP) 1 \<noteq> 0 then f1 OR RepEvents else f1);
                 f3 = (if bitmask AND push_bit (unat EV_REL) 1 \<noteq> 0
                       then (let relEvents = ioctl_EVIOCGBIT_REL os evfd;
                                 hasRelXEvents = (relEvents AND push_bit (unat REL_X) 1 \<noteq> 0);
                                 hasRelYEvents = (relEvents AND push_bit (unat REL_Y) 1 \<noteq> 0)
                             in if hasRelXEvents \<and> hasRelYEvents then f2 OR RelativeEvents else f2)
                       else f2);
                 f4 = (if fcntl_O_NONBLOCK os evfd then f3 OR NonBlocking else f3)
             in (\<lparr>mode = Some ReadOnly, fd = evfd, grabbed = isGrabbed,
                  inputBuffer = InputBuffer_default, im = None, notifier = Some True\<rparr>,
                 subdev\<lparr>deviceFlags := f4\<rparr>,
                 [Call_open devicePath ReadOnly]))"

definition openHidrawSubDeviceConnection ::
  "os_env \<Rightarrow> SubDevice \<Rightarrow> SubDeviceConnection \<times> SubDevice \<times> effect list" where
  "openHidrawSubDeviceConnection os subdev =
     (let devicePath = DeviceFile subdev;
          hrfd = sys_open os devicePath ReadWrite
      in if hrfd < 0 then (SubDeviceConnection_default, subdev, [Call_open devicePath ReadWrite])
         else (\<lparr>mode = Some ReadOnly, fd = hrfd, grabbed = False,
                inputBuffer = InputBuffer_default, im = None, notifier = Some True\<rparr>,
               subdev\<lparr>deviceFlags := (if fcntl_O_NONBLOCK os hrfd
                                         then deviceFlags subdev OR NonBlocking
                                         else deviceFlags subdev)\<rparr>,
               [Call_open devicePath ReadWrite]))"

text \<open>
  \<^verbatim>\<open>subdev.connection && subdev.connection->notifier &&
  subdev.connection->notifier->isEnabled()\<close>.
\<close>

definition notifier_enabled :: "SubDevice \<Rightarrow> bool" where
  "notifier_enabled subdev =
     (case connection subdev of None \<Rightarrow> False | Some c \<Rightarrow> notifier c = Some True)"

definition addInputEventHandler :: "SubDevice \<Rightarrow> bool" where
  "addInputEventHandler subdev =
     (if connection subdev = None \<or> subdev_type subdev \<noteq> Event \<or> \<not> notifier_enabled subdev
      then False else True)"

definition addInputHidrawHandler :: "SubDevice \<Rightarrow> bool" where
  "addInputHidrawHandler subdev =
     (if connection subdev = None \<or> subdev_type subdev \<noteq> Hidraw \<or> \<not> notifier_enabled subdev
      then False else True)"

section \<open>Connecting a device\<close>

text \<open>
  The loop of \<^verbatim>\<open>ConnectEventSubDevices\<close> over \<^verbatim>\<open>m_device->subDevices\<close>: the
  count, the sub-devices as the loop leaves them, and the effects.
\<close>

fun ConnectEventSubDevices ::
  "os_env \<Rightarrow> Spotlight \<Rightarrow> Device \<Rightarrow> SubDevice list \<Rightarrow> int \<times> SubDevice list \<times> effect list" where
  "ConnectEventSubDevices os s dev [] = (0, [], [])"
| "ConnectEventSubDevices os s dev (subdev # rest) =
     (let (n, rest', es) = ConnectEventSubDevices os s dev rest
      in if subdev_type subdev = Event \<and> DeviceReadable subdev \<and> length (DeviceFile subdev) > 0
         then
           if notifier_enabled subdev then (n + 1, subdev # rest', es)
           else
             let (c, subdev1, es1) = openEventSubDeviceConnection os s subdev;
                 subdev2 = subdev1\<lparr>connection := Some (c\<lparr>im := eventIM dev\<rparr>)\<rparr>
             in if notifier_enabled subdev2 \<and> addInputEventHandler subdev2
                then (n + 1, subdev2 # rest',
                      es1 @ [subDeviceConnected (dev_id dev) (name dev) (DeviceFile subdev2)] @ es)
                else (n, subdev2 # rest', es1 @ es)
         else (n, subdev # rest', es))"

text \<open>
  The loop of \<^verbatim>\<open>ConnectHidrawSubDevices\<close>; it stops at the first hidraw sub-device
  that connects. The third component is the new value of \<^verbatim>\<open>m_device->hidrwNode\<close>,
  if the loop sets it.
\<close>

fun ConnectHidrawSubDevices ::
  "os_env \<Rightarrow> SubDevice list \<Rightarrow> int \<times> SubDevice list \<times> int option \<times> effect list" where
  "ConnectHidrawSubDevices os [] = (0, [], None, [])"
| "ConnectHidrawSubDevices os (subdev # rest) =
     (if subdev_type subdev = Hidraw \<and> DeviceWritable subdev \<and> DeviceReadable subdev
         \<and> length (DeviceFile subdev) > 0
      then
        let (c, subdev1, es1) = openHidrawSubDeviceConnection os subdev;
            subdev2 = subdev1\<lparr>connection := Some c\<rparr>
        in if notifier_enabled subdev2 \<and> fd c \<noteq> 0 \<and> addInputHidrawHandler subdev2
           then (1, subdev2 # rest, Some (fd c), es1)
           else (let (n, rest', h, es) = ConnectHidrawSubDevices os rest
                 in (n, subdev2 # rest', h, es1 @ es))
      else (let (n, rest', h, es) = ConnectHidrawSubDevices os rest
            in (n, subdev # rest', h, es)))"

definition connectSubDevices :: "os_env \<Rightarrow> Spotlight \<Rightarrow> int \<times> Spotlight \<times> effect list" where
  "connectSubDevices os s =
     (case m_device s of
        None \<Rightarrow> (- 1, s, [])
      | Some d \<Rightarrow>
          if length (subDevices d) = 0 then (- 1, s, [])
          else
            let (connectedEventSubDevice, subs1, es1) = ConnectEventSubDevices os s d (subDevices d);
                (connectedHidrawSubDevice, subs2, h, es2) = ConnectHidrawSubDevices os subs1;
                d' = d\<lparr>subDevices := subs2,
                       hidrwNode := (case h of None \<Rightarrow> hidrwNode d | Some n \<Rightarrow> n)\<rparr>;
                s' = s\<lparr>m_device := Some d'\<rparr>
            in if connectedEventSubDevice > 0 \<and> connectedHidrawSubDevice > 0
               then (connectedEventSubDevice + connectedHidrawSubDevice, s', es1 @ es2)
               else (0, s', es1 @ es2))"

definition connectDevice ::
  "extra_devices \<Rightarrow> sysfs \<Rightarrow> os_env \<Rightarrow> Spotlight \<Rightarrow> DeviceId \<Rightarrow> int \<times> Spotlight \<times> effect list" where
  "connectDevice gen fs os s devid =
     (let scanResult = scanForDevices gen fs (additionalDevices s);
          anyConnectedBefore = anySpotlightDeviceConnected s
      in case devices scanResult of
           [] \<Rightarrow> (- 1, s, [])
         | first # _ \<Rightarrow>
             let s1 = (if vendorId devid \<noteq> 0 \<and> productId devid \<noteq> 0
                       then (case find (\<lambda>dev. dev_id dev = devid) (devices scanResult) of
                               Some dev \<Rightarrow> s\<lparr>m_device := Some dev\<rparr>
                             | None \<Rightarrow> s)
                       else s);
                 d2 = (case m_device s1 of None \<Rightarrow> first | Some d \<Rightarrow> d);
                 s3 = s1\<lparr>m_device := Some (d2\<lparr>eventIM := Some (im_count s1)\<rparr>),
                        im_count := Suc (im_count s1)\<rparr>;
                 (n, s4, es) = connectSubDevices os s3
             in if n > 0
                then (0, s4,
                      es @ [deviceConnected (dev_id d2) (name d2)]
                         @ (if \<not> anyConnectedBefore then [anySpotlightDeviceConnectedChanged True]
                            else []))
                else (0, s4, es))"

section \<open>onEventSubDeviceDataAvailable\<close>

text \<open>
  One call of \<^verbatim>\<open>::read(fd, &ev, sizeof(ev))\<close>: a full record, or any other return
  value together with the \<^verbatim>\<open>errno\<close> the handler then sees.
\<close>

datatype read_result = ReadOk input_event | ReadFail int

text \<open>
  \<^verbatim>\<open>InputMapper\<close> is implemented outside \<^verbatim>\<open>spotlight.cc\<close> (only its declaration
  in \<^verbatim>\<open>deviceinput.h\<close> is at hand): its state is a type parameter, and the three
  members the handler calls are parameters.
\<close>

record 'im InputMapper_ops =
  recordingMode :: "'im \<Rightarrow> bool"
  addEvents :: "input_event list \<Rightarrow> 'im \<Rightarrow> 'im"
  resetState :: "'im \<Rightarrow> 'im"

text \<open>
  What the handler works on: the members of \<^verbatim>\<open>Spotlight\<close>, the connection its
  closure holds, and the input mapper \<^verbatim>\<open>connection.im\<close> points to. The
  connection is a value of its own here: what the handler changes in it (the buffer,
  the disabled notifier) shows in \<open>conn\<close> and not in the copy inside
  \<open>m_device\<close>, where the code shares one object.
\<close>

record 'im handler_state =
  spotlight :: Spotlight
  conn :: SubDeviceConnection
  mapper :: 'im

datatype crash = out_of_range

text \<open>\<^verbatim>\<open>buf.data(), buf.pos()\<close>: the first \<^verbatim>\<open>pos_\<close> records of the array.\<close>

definition buffered :: "InputBuffer \<Rightarrow> input_event list" where
  "buffered buf = map (buf_data buf) [0..<buf_pos buf]"

definition isMouseMoveEvent :: "input_event \<Rightarrow> bool" where
  "isMouseMoveEvent first_ev =
     (ev_type first_ev = EV_REL \<and> (ev_code first_ev = REL_X \<or> ev_code first_ev = REL_Y))"

text \<open>
  The body of the \<^verbatim>\<open>while (true)\<close> loop after a read that filled \<open>ev\<close>, the
  record at \<^verbatim>\<open>buf.current()\<close>: from \<^verbatim>\<open>++buf\<close> to the end of the body.
\<close>

definition process_event ::
  "'im InputMapper_ops \<Rightarrow> 'im handler_state \<Rightarrow> input_event \<Rightarrow> 'im handler_state \<times> effect list" where
  "process_event ops st ev =
     (let buf0 = inputBuffer (conn st);
          buf = buf0\<lparr>buf_data := (buf_data buf0)(buf_pos buf0 := ev), buf_pos := Suc (buf_pos buf0)\<rparr>;
          reset = (\<lambda>st'. st'\<lparr>conn := (conn st')\<lparr>inputBuffer := buf\<lparr>buf_pos := 0\<rparr>\<rparr>\<rparr>)
      in if ev_type ev = EV_SYN then
           (if isMouseMoveEvent (buf_data buf 0) then
              (let (sp, es1) =
                     (if \<not> recordingMode ops (mapper st) then
                        (if \<not> m_activeTimer_isActive (spotlight st)
                         then ((spotlight st)\<lparr>m_spotActive := True, m_activeTimer_isActive := True\<rparr>,
                               [spotActiveChanged True, Call_activeTimer_start])
                         else ((spotlight st)\<lparr>m_activeTimer_isActive := True\<rparr>,
                               [Call_activeTimer_start]))
                      else (spotlight st, []));
                   es2 = (if m_virtualDevice (spotlight st) then [Call_emitEvents (buffered buf)]
                          else [])
               in (reset (st\<lparr>spotlight := sp\<rparr>), es1 @ es2))
            else
              (reset (st\<lparr>mapper := addEvents ops (buffered buf) (mapper st)\<rparr>),
               [Call_addEvents (buffered buf)]))
         else if buf_pos buf \<ge> buf_size then
           (reset (st\<lparr>mapper := resetState ops (mapper st)\<rparr>), [Call_resetState])
         else (st\<lparr>conn := (conn st)\<lparr>inputBuffer := buf\<rparr>\<rparr>, []))"

text \<open>
  What a failed read does: nothing for \<^verbatim>\<open>EAGAIN\<close>; otherwise the notifier is
  disabled, the presence signal is emitted if \<^verbatim>\<open>anySpotlightDeviceConnected()\<close> is
  false, and the removal of the sub-device is deferred.
\<close>

definition read_failed ::
  "SubDevice \<Rightarrow> 'im handler_state \<Rightarrow> int \<Rightarrow> 'im handler_state \<times> effect list" where
  "read_failed dev st errno =
     (if errno \<noteq> EAGAIN then
        (st\<lparr>conn := (conn st)\<lparr>notifier := Some False\<rparr>,
            spotlight := (spotlight st)\<lparr>deferred := deferred (spotlight st) @ [DeviceFile dev]\<rparr>\<rparr>,
         (if \<not> anySpotlightDeviceConnected (spotlight st)
          then [anySpotlightDeviceConnectedChanged False] else []))
      else (st, []))"

text \<open>
  The handler. The list gives the results of the successive reads of this call; when
  it is used up the descriptor has nothing more, which a read reports as
  \<^verbatim>\<open>EAGAIN\<close>. \<^verbatim>\<open>buf.current()\<close> is \<^verbatim>\<open>data_.at(pos_)\<close>, which throws
  \<^verbatim>\<open>std::out_of_range\<close> for a position outside the array; nothing catches it.
\<close>

fun onEventSubDeviceDataAvailable ::
  "'im InputMapper_ops \<Rightarrow> SubDevice \<Rightarrow> read_result list \<Rightarrow> 'im handler_state
     \<Rightarrow> crash + ('im handler_state \<times> effect list)" where
  "onEventSubDeviceDataAvailable ops dev [] st =
     (if buf_pos (inputBuffer (conn st)) \<ge> buf_size then Inl out_of_range
      else Inr (read_failed dev st EAGAIN))"
| "onEventSubDeviceDataAvailable ops dev (r # rs) st =
     (if buf_pos (inputBuffer (conn st)) \<ge> buf_size then Inl out_of_range
      else case r of
        ReadFail errno \<Rightarrow> Inr (read_failed dev st errno)
      | ReadOk ev \<Rightarrow>
          let (st1, es1) = process_event ops st ev
          in if \<not> (deviceFlags dev AND NonBlocking \<noteq> 0) then Inr (st1, es1)
             else (case onEventSubDeviceDataAvailable ops dev rs st1 of
                     Inl c \<Rightarrow> Inl c
                   | Inr (st2, es2) \<Rightarrow> Inr (st2, es1 @ es2)))"

text \<open>
  A sequence of read-readiness notifications of one connection, each with the results
  of its reads. A disabled notifier delivers nothing.
\<close>

fun notifications ::
  "'im InputMapper_ops \<Rightarrow> SubDevice \<Rightarrow> read_result list list \<Rightarrow> 'im handler_state
     \<Rightarrow> crash + ('im handler_state \<times> effect list)" where
  "notifications ops dev [] st = Inr (st, [])"
| "notifications ops dev (b # bs) st =
     (if notifier (conn st) \<noteq> Some True then Inr (st, [])
      else case onEventSubDeviceDataAvailable ops dev b st of
        Inl c \<Rightarrow> Inl c
      | Inr (st1, es1) \<Rightarrow>
          (case notifications ops dev bs st1 of
             Inl c \<Rightarrow> Inl c
           | Inr (st2, es2) \<Rightarrow> Inr (st2, es1 @ es2)))"

text \<open>A frame whose first record is a relative motion on the X or Y axis.\<close>

definition motion_frame :: "input_event list \<Rightarrow> bool" where
  "motion_frame frame = (case frame of [] \<Rightarrow> False | first_ev # _ \<Rightarrow> isMouseMoveEvent first_ev)"

section \<open>The frame buffer as the specification describes it\<close>

text \<open>
  The specification's demultiplexing of a record stream, on the list of records
  buffered so far: a synchronization marker completes the frame and empties the
  buffer; any other record that fills the buffer (``buffer full before a marker
  arrives'') makes the handler discard the buffered contents and reset the recorder;
  any other record is buffered. \<open>demux_spec\<close> gives the records buffered after the
  stream and the number of discards.
\<close>

definition demux_step :: "input_event list \<Rightarrow> input_event \<Rightarrow> input_event list \<times> nat" where
  "demux_step pending e =
     (if ev_type e = EV_SYN then ([], 0)
      else if buf_size \<le> length (pending @ [e]) then ([], 1)
      else (pending @ [e], 0))"

fun demux_spec :: "input_event list \<Rightarrow> input_event list \<Rightarrow> input_event list \<times> nat" where
  "demux_spec pending [] = (pending, 0)"
| "demux_spec pending (e # es) =
     (let (pending1, n1) = demux_step pending e;
          (pending2, n2) = demux_spec pending1 es
      in (pending2, n1 + n2))"

text \<open>
  The records one call of the handler reads from the results of its reads: up to the
  first failed read, and only the first record when the descriptor is not
  non-blocking. \<open>read_stops_notifier\<close> tells whether the call ends with a failed
  read other than \<^verbatim>\<open>EAGAIN\<close>, and \<open>records_delivered\<close> collects the records read
  over a sequence of notifications.
\<close>

fun records_read :: "bool \<Rightarrow> read_result list \<Rightarrow> input_event list" where
  "records_read nb [] = []"
| "records_read nb (ReadFail errno # rs) = []"
| "records_read nb (ReadOk e # rs) = e # (if nb then records_read nb rs else [])"

fun read_stops_notifier :: "bool \<Rightarrow> read_result list \<Rightarrow> bool" where
  "read_stops_notifier nb [] = False"
| "read_stops_notifier nb (ReadFail errno # rs) = (errno \<noteq> EAGAIN)"
| "read_stops_notifier nb (ReadOk e # rs) = (if nb then read_stops_notifier nb rs else False)"

fun records_delivered :: "bool \<Rightarrow> read_result list list \<Rightarrow> input_event list" where
  "records_delivered nb [] = []"
| "records_delivered nb (b # bs) =
     records_read nb b @ (if read_stops_notifier nb b then [] else records_delivered nb bs)"

text \<open>The input mapper after the calls among a list of effects, in their order.\<close>

definition apply_call :: "'im InputMapper_ops \<Rightarrow> 'im \<Rightarrow> effect \<Rightarrow> 'im" where
  "apply_call ops m c =
     (case c of
        Call_addEvents frame \<Rightarrow> addEvents ops frame m
      | Call_resetState \<Rightarrow> resetState ops m
      | _ \<Rightarrow> m)"

definition apply_calls :: "'im InputMapper_ops \<Rightarrow> effect list \<Rightarrow> 'im \<Rightarrow> 'im" where
  "apply_calls ops es m = foldl (apply_call ops) m es"

section \<open>A device tree and a kernel for concrete runs\<close>

text \<open>
  A Logitech Spotlight on USB, as the kernel shows it: one HID interface with an
  \<^verbatim>\<open>input\<close> sub-tree (\<^verbatim>\<open>/dev/input/event5\<close>) and one with only a \<^verbatim>\<open>hidraw\<close>
  sub-tree (\<^verbatim>\<open>/dev/hidraw0\<close>), both with \<^verbatim>\<open>HID_ID=0003:0000046D:0000C53E\<close>.
\<close>

definition gen_none :: extra_devices where
  "gen_none = \<lparr>isExtraDeviceSupported = (\<lambda>_ _. False), getExtraDeviceName = (\<lambda>_ _. [])\<rparr>"

definition usb_id :: DeviceId where
  "usb_id = \<lparr>vendorId = 0x46d, productId = 0xc53e, phys = ''usb-0000:00:14.0-2''\<rparr>"

definition usb_uevent :: Device where
  "usb_uevent =
     \<lparr>name = ''Logitech USB Receiver'', userName = [], dev_id = usb_id, busType = Usb,
      subDevices = [], eventIM = None, hidrwNode = 0\<rparr>"

definition usb_input_node :: input_node where
  "usb_input_node =
     \<lparr>id_vendor = 0x46d, id_product = 0xc53e,
      event_dirs = [\<lparr>fileName = ''event5'', DEVNAME = ''input/event5''\<rparr>],
      phys_file = ''usb-0000:00:14.0-2/input0'',
      capabilities_ev = 0x17, capabilities_rel = 0x3\<rparr>"

definition usb_input_dir :: hid_dir where
  "usb_input_dir =
     \<lparr>uevent_exists = True, uevent_device = usb_uevent, input_exists = True,
      input_nodes = [usb_input_node], hidraw_exists = True, hidraw_nodes = []\<rparr>"

definition usb_hidraw_dir :: hid_dir where
  "usb_hidraw_dir =
     \<lparr>uevent_exists = True, uevent_device = usb_uevent, input_exists = False,
      input_nodes = [], hidraw_exists = True,
      hidraw_nodes = [\<lparr>fileName = ''hidraw0'', DEVNAME = ''hidraw0''\<rparr>]\<rparr>"

definition broken_dir :: hid_dir where
  "broken_dir =
     \<lparr>uevent_exists = False, uevent_device = usb_uevent, input_exists = False,
      input_nodes = [], hidraw_exists = False, hidraw_nodes = []\<rparr>"

definition sysfs_usb :: sysfs where
  "sysfs_usb =
     \<lparr>root_exists = True, root_isExecutable = True,
      hid_dirs = [usb_input_dir, usb_hidraw_dir],
      isReadable = (\<lambda>_. True), isWritable = (\<lambda>_. True)\<rparr>"

definition sysfs_event_only :: sysfs where
  "sysfs_event_only = sysfs_usb\<lparr>hid_dirs := [usb_input_dir]\<rparr>"

definition sysfs_no_root :: sysfs where
  "sysfs_no_root = sysfs_usb\<lparr>root_exists := False\<rparr>"

definition os_ok :: os_env where
  "os_ok =
     \<lparr>sys_open = (\<lambda>path m. if path = ''/dev/input/event5'' then 7
                            else if path = ''/dev/hidraw0'' then 8 else - 1),
      ioctl_EVIOCGBIT_0 = (\<lambda>_. Some 0x17),
      ioctl_EVIOCGBIT_REL = (\<lambda>_. 0x3),
      ioctl_EVIOCGRAB = (\<lambda>_. 0),
      fcntl_O_NONBLOCK = (\<lambda>_. True),
      sys_write = (\<lambda>_ data. int (length data))\<rparr>"

definition Spotlight_initial :: Spotlight where
  "Spotlight_initial =
     \<lparr>additionalDevices = [], m_activeTimer_isActive = False, m_spotActive = False,
      m_device = None, m_virtualDevice = True, im_count = 0, deferred = []\<rparr>"

text \<open>An input mapper that only remembers its recording mode.\<close>

definition ops_flag :: "bool InputMapper_ops" where
  "ops_flag = \<lparr>recordingMode = (\<lambda>m. m), addEvents = (\<lambda>_ m. m), resetState = (\<lambda>m. m)\<rparr>"

definition mk_event :: "quint16 \<Rightarrow> quint16 \<Rightarrow> 32 word \<Rightarrow> input_event" where
  "mk_event t c v = \<lparr>ev_time = (0, 0), ev_type = t, ev_code = c, ev_value = v\<rparr>"

definition sysfs_hidraw_first :: sysfs where
  "sysfs_hidraw_first = sysfs_usb\<lparr>hid_dirs := [usb_hidraw_dir, usb_input_dir]\<rparr>"

text \<open>Error numbers other than \<^verbatim>\<open>EAGAIN\<close>: \<^verbatim>\<open>ENODEV\<close>, the read of an unplugged device.\<close>

definition ENODEV :: int where "ENODEV = 19"

text \<open>
  The state after \<^verbatim>\<open>connectDevice()\<close> on that tree, its event sub-device
  \<^verbatim>\<open>/dev/input/event5\<close>, and what the handler of that sub-device works on.
\<close>

definition connected_usb :: Spotlight where
  "connected_usb =
     fst (snd (connectDevice gen_none sysfs_usb os_ok Spotlight_initial DeviceId_default))"

definition event5_dev :: SubDevice where
  "event5_dev =
     (case m_device connected_usb of
        None \<Rightarrow> SubDevice_default Event
      | Some d \<Rightarrow> (case subDevices d of [] \<Rightarrow> SubDevice_default Event | subdev # _ \<Rightarrow> subdev))"

definition event5_handler :: "bool handler_state" where
  "event5_handler =
     \<lparr>spotlight = connected_usb,
      conn = (case connection event5_dev of None \<Rightarrow> SubDeviceConnection_default | Some c \<Rightarrow> c),
      mapper = False\<rparr>"

definition EV_KEY :: quint16 where "EV_KEY = 1"
definition KEY_RIGHT :: quint16 where "KEY_RIGHT = 106"

text \<open>The handler state with eleven key records buffered and no marker yet.\<close>

definition event5_eleven :: "bool handler_state" where
  "event5_eleven =
     event5_handler\<lparr>conn := (conn event5_handler)\<lparr>inputBuffer :=
       \<lparr>buf_data = (\<lambda>_. mk_event EV_KEY KEY_RIGHT 1), buf_pos = 11\<rparr>\<rparr>\<rparr>"

section \<open>Connected sub-devices\<close>

text \<open>
  An event sub-device counts as connected for \<^verbatim>\<open>ConnectEventSubDevices\<close> when it is
  readable, has a device file and holds a connection with an enabled notifier; a
  hidraw sub-device counts for \<^verbatim>\<open>ConnectHidrawSubDevices\<close> when it is readable and
  writable, has a device file and holds a connection with an enabled notifier and a
  non-zero descriptor.
\<close>

definition event_connected :: "SubDevice \<Rightarrow> bool" where
  "event_connected subdev =
     (subdev_type subdev = Event \<and> DeviceReadable subdev \<and> DeviceFile subdev \<noteq> []
      \<and> notifier_enabled subdev)"

definition hidraw_connected :: "SubDevice \<Rightarrow> bool" where
  "hidraw_connected subdev =
     (subdev_type subdev = Hidraw \<and> DeviceWritable subdev \<and> DeviceReadable subdev
      \<and> DeviceFile subdev \<noteq> []
      \<and> (case connection subdev of None \<Rightarrow> False
          | Some c \<Rightarrow> notifier c = Some True \<and> fd c \<noteq> 0))"

section \<open>The vibration command\<close>

text \<open>
  C6: \<^verbatim>\<open>vibrateDevice(strength)\<close> builds the seven bytes
  \<^verbatim>\<open>0x10 0x01 0x09 0x11 0x03 0xE8 s\<close>, where \<open>s\<close> is 64 for a strength below 64 and
  the strength itself from 64 on; with a device connected whose raw-report handle is
  set, its only effect is the write of that payload to the handle.
\<close>

theorem vibrateDevice_payload:
  "vibration_data strength = [0x10, 0x01, 0x09, 0x11, 0x03, 0xE8, if strength < 64 then 64 else strength]
   \<and> (strength < 64 \<longrightarrow> vibration_data strength ! 6 = 64)
   \<and> (64 \<le> strength \<longrightarrow> vibration_data strength ! 6 = strength)
   \<and> (\<forall>d. m_device s = Some d \<longrightarrow> hidrwNode d \<noteq> 0 \<longrightarrow>
         snd (vibrateDevice os s strength) = [Call_write (hidrwNode d) (vibration_data strength)])"
  by (auto simp: vibration_data_def vibrateDevice_def sendDatatoDevice_def
        anySpotlightDeviceConnected_def Let_def)

theorem vibrateDevice_payload_witness:
  "(10 :: 8 word) < 64 \<and> vibration_data 10 ! 6 = 64
   \<and> (64 :: 8 word) \<le> 200 \<and> vibration_data 200 ! 6 = 200
   \<and> snd (vibrateDevice os_ok (Spotlight_initial\<lparr>m_device := Some (usb_uevent\<lparr>hidrwNode := 8\<rparr>)\<rparr>) 10)
       = [Call_write 8 [0x10, 0x01, 0x09, 0x11, 0x03, 0xE8, 64]]"
  using vibrateDevice_payload [where strength=10 and os=os_ok
        and s="Spotlight_initial\<lparr>m_device := Some (usb_uevent\<lparr>hidrwNode := 8\<rparr>)\<rparr>"]
    vibrateDevice_payload [where strength=200 and os=os_ok and s=Spotlight_initial]
  by simp


section \<open>Properties of the scanner\<close>

subsection \<open>The position std::find\_if returns\<close>

lemma find_if_le: "find_if P xs \<le> length xs"
  by (induction xs) auto

lemma find_if_end_iff: "find_if P xs = length xs \<longleftrightarrow> (\<forall>x\<in>set xs. \<not> P x)"
  by (induction xs) auto

lemma find_if_hit: "find_if P xs < length xs \<Longrightarrow> P (xs ! find_if P xs)"
  by (induction xs) auto

lemma find_if_first: "i < find_if P xs \<Longrightarrow> \<not> P (xs ! i)"
proof (induction xs arbitrary: i)
  case Nil
  then show ?case by simp
next
  case (Cons x xs)
  then show ?case by (cases i) (auto split: if_splits)
qed

lemma find_if_unique:
  assumes "i < length xs" "P (xs ! i)" "\<forall>j<i. \<not> P (xs ! j)"
  shows "find_if P xs = i"
proof -
  have "find_if P xs \<noteq> length xs"
    using assms(1,2) by (auto simp: find_if_end_iff)
  then have lt: "find_if P xs < length xs"
    using find_if_le [of P xs] by simp
  have "\<not> find_if P xs < i"
    using assms(3) find_if_hit [OF lt] by blast
  moreover have "\<not> i < find_if P xs"
    using assms(2) find_if_first [of i P xs] by blast
  ultimately show ?thesis by simp
qed


subsection \<open>One pass of the loop over the HID directories\<close>

lemma map_dev_id_update:
  "i < length devs \<Longrightarrow> dev_id r = dev_id (devs ! i) \<Longrightarrow> map dev_id (devs[i := r]) = map dev_id devs"
  by (simp add: map_update list_update_same_conv)

lemma scan_hid_dir_ids:
  "map dev_id (scan_hid_dir gen fs add devs d) =
     (if accepted gen add d \<and> dev_id (uevent_device d) \<notin> dev_id ` set devs
      then map dev_id devs @ [dev_id (uevent_device d)] else map dev_id devs)"
proof (cases "accepted gen add d")
  case False
  then show ?thesis by (simp add: scan_hid_dir_def)
next
  case acc: True
  let ?P = "\<lambda>e. dev_id e = dev_id (uevent_device d)"
  show ?thesis
  proof (cases "find_if ?P devs = length devs")
    case True
    then have "dev_id (uevent_device d) \<notin> dev_id ` set devs"
      by (auto simp: find_if_end_iff)
    with acc True show ?thesis
      by (simp add: scan_hid_dir_def Let_def nth_append)
  next
    case False
    then have lt: "find_if ?P devs < length devs"
      using find_if_le [of ?P devs] by simp
    then have hit: "dev_id (devs ! find_if ?P devs) = dev_id (uevent_device d)"
      using find_if_hit [of ?P devs] by simp
    then have "dev_id (uevent_device d) \<in> dev_id ` set devs"
      using lt by (metis imageI nth_mem)
    with acc False lt show ?thesis
      by (simp add: scan_hid_dir_def Let_def map_dev_id_update)
  qed
qed
lemma scan_hid_dir_existing:
  assumes acc: "accepted gen add d"
    and i: "i < length devs" "dev_id (devs ! i) = dev_id (uevent_device d)"
    and first: "\<forall>j<i. dev_id (devs ! j) \<noteq> dev_id (uevent_device d)"
  shows "scan_hid_dir gen fs add devs d =
           devs[i := (devs ! i)\<lparr>subDevices := subDevices (devs ! i) @ sub_nodes fs (dev_id (uevent_device d)) d\<rparr>]"
proof -
  have "find_if (\<lambda>e. dev_id e = dev_id (uevent_device d)) devs = i"
    using i first by (intro find_if_unique) auto
  then show ?thesis
    using acc i by (simp add: scan_hid_dir_def Let_def)
qed

lemma scan_hid_dir_cases:
  "(\<not> accepted gen add d \<and> scan_hid_dir gen fs add devs d = devs)
   \<or> (\<exists>i<length devs. scan_hid_dir gen fs add devs d =
          devs[i := (devs ! i)\<lparr>subDevices := subDevices (devs ! i) @ sub_nodes fs (dev_id (devs ! i)) d\<rparr>]
        \<and> accepted gen add d \<and> dev_id (devs ! i) = dev_id (uevent_device d))
   \<or> (scan_hid_dir gen fs add devs d =
          devs @ [(uevent_device d)\<lparr>userName := getUserDeviceName gen (vendorId (dev_id (uevent_device d)))
                              (productId (dev_id (uevent_device d))) add,
                 subDevices := subDevices (uevent_device d) @ sub_nodes fs (dev_id (uevent_device d)) d\<rparr>]
        \<and> accepted gen add d \<and> dev_id (uevent_device d) \<notin> dev_id ` set devs)"
proof (cases "accepted gen add d")
  case False
  then show ?thesis by (simp add: scan_hid_dir_def)
next
  case acc: True
  let ?P = "\<lambda>e. dev_id e = dev_id (uevent_device d)"
  show ?thesis
  proof (cases "find_if ?P devs = length devs")
    case True
    then have "dev_id (uevent_device d) \<notin> dev_id ` set devs"
      by (auto simp: find_if_end_iff)
    with acc True show ?thesis
      by (simp add: scan_hid_dir_def Let_def nth_append)
  next
    case False
    then have lt: "find_if ?P devs < length devs"
      using find_if_le [of ?P devs] by simp
    then have hit: "dev_id (devs ! find_if ?P devs) = dev_id (uevent_device d)"
      using find_if_hit [of ?P devs] by simp
    have "scan_hid_dir gen fs add devs d =
          devs[find_if ?P devs := (devs ! find_if ?P devs)\<lparr>subDevices := subDevices (devs ! find_if ?P devs)
             @ sub_nodes fs (dev_id (devs ! find_if ?P devs)) d\<rparr>]"
      using acc False by (simp add: scan_hid_dir_def Let_def)
    with lt hit acc show ?thesis by blast
  qed
qed

lemma scan_hid_dir_keeps:
  assumes "dv \<in> set devs"
  shows "\<exists>dv'\<in>set (scan_hid_dir gen fs add devs d).
           dev_id dv' = dev_id dv \<and> set (subDevices dv) \<subseteq> set (subDevices dv')"
proof -
  from assms obtain k where k: "k < length devs" "devs ! k = dv"
    by (auto simp: in_set_conv_nth)
  consider (same) "scan_hid_dir gen fs add devs d = devs"
    | (upd) i where "i < length devs" "scan_hid_dir gen fs add devs d =
          devs[i := (devs ! i)\<lparr>subDevices := subDevices (devs ! i) @ sub_nodes fs (dev_id (devs ! i)) d\<rparr>]"
    | (app) x where "scan_hid_dir gen fs add devs d = devs @ [x]"
    using scan_hid_dir_cases [where gen=gen and fs=fs and add=add and devs=devs and d=d] by blast
  then show ?thesis
  proof cases
    case same
    with assms show ?thesis by auto
  next
    case (upd i)
    let ?r = "(devs ! i)\<lparr>subDevices := subDevices (devs ! i) @ sub_nodes fs (dev_id (devs ! i)) d\<rparr>"
    show ?thesis
    proof (cases "k = i")
      case True
      have "?r \<in> set (devs[i := ?r])"
        using upd(1) by (simp add: set_update_memI)
      moreover have "dev_id ?r = dev_id dv" "set (subDevices dv) \<subseteq> set (subDevices ?r)"
        using True k by auto
      ultimately show ?thesis using upd(2) by metis
    next
      case False
      then have "(devs[i := ?r]) ! k = dv"
        using k by simp
      then have "dv \<in> set (devs[i := ?r])"
        using k(1) by (metis length_list_update nth_mem)
      then show ?thesis using upd(2) by auto
    qed
  next
    case (app x)
    with assms show ?thesis by auto
  qed
qed

lemma scan_hid_dir_adds:
  assumes "accepted gen add d"
  shows "\<exists>dv'\<in>set (scan_hid_dir gen fs add devs d).
           dev_id dv' = dev_id (uevent_device d)
           \<and> set (sub_nodes fs (dev_id (uevent_device d)) d) \<subseteq> set (subDevices dv')"
proof -
  consider (upd) i where "i < length devs" "scan_hid_dir gen fs add devs d =
          devs[i := (devs ! i)\<lparr>subDevices := subDevices (devs ! i) @ sub_nodes fs (dev_id (devs ! i)) d\<rparr>]"
          "dev_id (devs ! i) = dev_id (uevent_device d)"
    | (app) "scan_hid_dir gen fs add devs d =
          devs @ [(uevent_device d)\<lparr>userName := getUserDeviceName gen (vendorId (dev_id (uevent_device d)))
                              (productId (dev_id (uevent_device d))) add,
                 subDevices := subDevices (uevent_device d) @ sub_nodes fs (dev_id (uevent_device d)) d\<rparr>]"
    using scan_hid_dir_cases [where gen=gen and fs=fs and add=add and devs=devs and d=d] assms
    by blast
  then show ?thesis
  proof cases
    case (upd i)
    let ?r = "(devs ! i)\<lparr>subDevices := subDevices (devs ! i) @ sub_nodes fs (dev_id (devs ! i)) d\<rparr>"
    have "?r \<in> set (devs[i := ?r])"
      using upd(1) by (simp add: set_update_memI)
    moreover have "dev_id ?r = dev_id (uevent_device d)"
      "set (sub_nodes fs (dev_id (uevent_device d)) d) \<subseteq> set (subDevices ?r)"
      using upd(3) by auto
    ultimately show ?thesis using upd(2) by metis
  next
    case app
    then show ?thesis by simp
  qed
qed

lemma foldl_scan_keeps:
  "dv \<in> set devs \<Longrightarrow>
   \<exists>dv'\<in>set (foldl (scan_hid_dir gen fs add) devs ds).
      dev_id dv' = dev_id dv \<and> set (subDevices dv) \<subseteq> set (subDevices dv')"
proof (induction ds arbitrary: devs dv)
  case Nil
  then show ?case by auto
next
  case (Cons d ds)
  from scan_hid_dir_keeps [OF Cons.prems, of gen fs add d]
  obtain dv1 where dv1: "dv1 \<in> set (scan_hid_dir gen fs add devs d)"
    "dev_id dv1 = dev_id dv" "set (subDevices dv) \<subseteq> set (subDevices dv1)"
    by blast
  from Cons.IH [OF dv1(1)]
  obtain dv2 where "dv2 \<in> set (foldl (scan_hid_dir gen fs add) (scan_hid_dir gen fs add devs d) ds)"
    "dev_id dv2 = dev_id dv1" "set (subDevices dv1) \<subseteq> set (subDevices dv2)"
    by blast
  with dv1 show ?case by force
qed

lemma foldl_scan_adds:
  "d \<in> set ds \<Longrightarrow> accepted gen add d \<Longrightarrow>
   \<exists>dv\<in>set (foldl (scan_hid_dir gen fs add) devs ds).
      dev_id dv = dev_id (uevent_device d)
      \<and> set (sub_nodes fs (dev_id (uevent_device d)) d) \<subseteq> set (subDevices dv)"
proof (induction ds arbitrary: devs)
  case Nil
  then show ?case by simp
next
  case (Cons e ds)
  show ?case
  proof (cases "d = e")
    case True
    from scan_hid_dir_adds [OF Cons.prems(2), of fs devs]
    obtain dv1 where dv1: "dv1 \<in> set (scan_hid_dir gen fs add devs d)"
      "dev_id dv1 = dev_id (uevent_device d)"
      "set (sub_nodes fs (dev_id (uevent_device d)) d) \<subseteq> set (subDevices dv1)"
      by blast
    from foldl_scan_keeps [OF dv1(1), of gen fs add ds]
    obtain dv2 where "dv2 \<in> set (foldl (scan_hid_dir gen fs add) (scan_hid_dir gen fs add devs d) ds)"
      "dev_id dv2 = dev_id dv1" "set (subDevices dv1) \<subseteq> set (subDevices dv2)"
      by blast
    with dv1 True show ?thesis by force
  next
    case False
    with Cons.prems have "d \<in> set ds" by simp
    from Cons.IH [OF this Cons.prems(2)] show ?thesis by simp
  qed
qed

lemma foldl_scan_ids_set:
  "dev_id ` set (foldl (scan_hid_dir gen fs add) devs ds) =
     dev_id ` set devs \<union> (\<lambda>d. dev_id (uevent_device d)) ` {d \<in> set ds. accepted gen add d}"
proof (induction ds arbitrary: devs)
  case Nil
  then show ?case by simp
next
  case (Cons d ds)
  have "dev_id ` set (scan_hid_dir gen fs add devs d) =
          (if accepted gen add d then insert (dev_id (uevent_device d)) (dev_id ` set devs)
           else dev_id ` set devs)"
    using arg_cong [OF scan_hid_dir_ids [of gen fs add devs d], of set]
    by (auto split: if_splits)
  then show ?case
    using Cons.IH [of "scan_hid_dir gen fs add devs d"] by auto
qed

lemma foldl_scan_distinct:
  "distinct (map dev_id devs) \<Longrightarrow> distinct (map dev_id (foldl (scan_hid_dir gen fs add) devs ds))"
proof (induction ds arbitrary: devs)
  case Nil
  then show ?case by simp
next
  case (Cons d ds)
  have "distinct (map dev_id (scan_hid_dir gen fs add devs d))"
    using Cons.prems by (simp add: scan_hid_dir_ids)
  then show ?case using Cons.IH by simp
qed

lemma accepted_props:
  assumes "accepted gen add d"
  shows "vendorId (dev_id (uevent_device d)) \<noteq> 0" "productId (dev_id (uevent_device d)) \<noteq> 0"
    "(\<exists>s\<in>set supportedDefaultDevices. sup_vendorId s = vendorId (dev_id (uevent_device d))
          \<and> sup_productId s = productId (dev_id (uevent_device d)))
     \<or> isExtraDeviceSupported gen (vendorId (dev_id (uevent_device d))) (productId (dev_id (uevent_device d)))
     \<or> (\<exists>s\<in>set add. sup_vendorId s = vendorId (dev_id (uevent_device d))
          \<and> sup_productId s = productId (dev_id (uevent_device d)))"
  using assms
  by (auto simp: accepted_def isDeviceSupported_def isAdditionallySupported_def matches_def
        find_None_iff)

lemma scanForDevices_ids:
  "dev_id ` set (devices (scanForDevices gen fs add)) =
     (if root_exists fs \<and> root_isExecutable fs
      then (\<lambda>d. dev_id (uevent_device d)) ` {d \<in> set (hid_dirs fs). accepted gen add d}
      else {})"
  by (simp add: scanForDevices_def ScanResult_default_def foldl_scan_ids_set Let_def)


subsection \<open>The devices a scan returns\<close>

lemma usb_scan: "map dev_id (devices (scanForDevices gen_none sysfs_usb [])) = [usb_id]"
  by code_simp


text \<open>
  C10: every device of a scan result has a vendor id and a product id other than 0,
  and the pair is in the built-in list, is accepted by the generated
  \<^verbatim>\<open>isExtraDeviceSupported\<close>, or is in the list the caller passed; so no scanned
  device has the default id \<^verbatim>\<open>DeviceId(0, 0, "")\<close>.
\<close>

theorem scanForDevices_devices_supported:
  "\<forall>dev\<in>set (devices (scanForDevices gen fs add)).
      vendorId (dev_id dev) \<noteq> 0 \<and> productId (dev_id dev) \<noteq> 0
      \<and> ((\<exists>s\<in>set supportedDefaultDevices.
              sup_vendorId s = vendorId (dev_id dev) \<and> sup_productId s = productId (dev_id dev))
         \<or> isExtraDeviceSupported gen (vendorId (dev_id dev)) (productId (dev_id dev))
         \<or> (\<exists>s\<in>set add.
              sup_vendorId s = vendorId (dev_id dev) \<and> sup_productId s = productId (dev_id dev)))
      \<and> dev_id dev \<noteq> DeviceId_default"
proof
  fix dev
  assume "dev \<in> set (devices (scanForDevices gen fs add))"
  then have "dev_id dev \<in> dev_id ` set (devices (scanForDevices gen fs add))"
    by (rule imageI)
  then obtain d where d: "accepted gen add d" "dev_id dev = dev_id (uevent_device d)"
    by (auto simp: scanForDevices_ids split: if_splits)
  from accepted_props [OF d(1)] d(2)
  show "vendorId (dev_id dev) \<noteq> 0 \<and> productId (dev_id dev) \<noteq> 0
      \<and> ((\<exists>s\<in>set supportedDefaultDevices.
              sup_vendorId s = vendorId (dev_id dev) \<and> sup_productId s = productId (dev_id dev))
         \<or> isExtraDeviceSupported gen (vendorId (dev_id dev)) (productId (dev_id dev))
         \<or> (\<exists>s\<in>set add.
              sup_vendorId s = vendorId (dev_id dev) \<and> sup_productId s = productId (dev_id dev)))
      \<and> dev_id dev \<noteq> DeviceId_default"
    by (auto simp: DeviceId_default_def)
qed


theorem scanForDevices_devices_supported_witness:
  "devices (scanForDevices gen_none sysfs_usb []) \<noteq> []
   \<and> vendorId (dev_id (hd (devices (scanForDevices gen_none sysfs_usb [])))) \<noteq> 0
   \<and> productId (dev_id (hd (devices (scanForDevices gen_none sysfs_usb [])))) \<noteq> 0
   \<and> dev_id (hd (devices (scanForDevices gen_none sysfs_usb []))) \<noteq> DeviceId_default"
proof -
  have ne: "devices (scanForDevices gen_none sysfs_usb []) \<noteq> []"
    using usb_scan by auto
  then have "hd (devices (scanForDevices gen_none sysfs_usb [])) \<in> set (devices (scanForDevices gen_none sysfs_usb []))"
    by simp
  with scanForDevices_devices_supported [of gen_none sysfs_usb "[]"] ne
  show ?thesis by blast
qed

text \<open>
  C7: a scan returns exactly one device per device id. The ids of the result are
  pairwise different, every accepted HID directory is represented by the device that
  carries its id, and that device holds the sub-device nodes the directory
  contributed. When a directory yields the id of a device already collected, the pass
  for it only appends its sub-device nodes to that entry; the list gets no new entry.
\<close>

theorem scanForDevices_one_device_per_id:
  "distinct (map dev_id (devices (scanForDevices gen fs add)))
   \<and> (root_exists fs \<and> root_isExecutable fs \<longrightarrow>
        (\<forall>d\<in>set (hid_dirs fs). accepted gen add d \<longrightarrow>
           (\<exists>dev\<in>set (devices (scanForDevices gen fs add)).
              dev_id dev = dev_id (uevent_device d)
              \<and> set (sub_nodes fs (dev_id dev) d) \<subseteq> set (subDevices dev))))
   \<and> (accepted gen add e \<and> i < length devs \<and> dev_id (devs ! i) = dev_id (uevent_device e)
        \<and> (\<forall>j<i. dev_id (devs ! j) \<noteq> dev_id (uevent_device e)) \<longrightarrow>
          scan_hid_dir gen fs add devs e =
            devs[i := (devs ! i)\<lparr>subDevices :=
                   subDevices (devs ! i) @ sub_nodes fs (dev_id (uevent_device e)) e\<rparr>])"
proof (intro conjI impI ballI)
  show "distinct (map dev_id (devices (scanForDevices gen fs add)))"
    by (simp add: scanForDevices_def ScanResult_default_def foldl_scan_distinct Let_def)
next
  fix d
  assume root: "root_exists fs \<and> root_isExecutable fs"
    and d: "d \<in> set (hid_dirs fs)" "accepted gen add d"
  have "devices (scanForDevices gen fs add) = foldl (scan_hid_dir gen fs add) [] (hid_dirs fs)"
    using root by (simp add: scanForDevices_def Let_def)
  with foldl_scan_adds [OF d, of fs "[]"]
  obtain dv where "dv \<in> set (devices (scanForDevices gen fs add))"
    "dev_id dv = dev_id (uevent_device d)"
    "set (sub_nodes fs (dev_id (uevent_device d)) d) \<subseteq> set (subDevices dv)"
    by auto
  then show "\<exists>dev\<in>set (devices (scanForDevices gen fs add)).
              dev_id dev = dev_id (uevent_device d)
              \<and> set (sub_nodes fs (dev_id dev) d) \<subseteq> set (subDevices dev)"
    by (intro bexI [of _ dv]) simp_all
next
  assume "accepted gen add e \<and> i < length devs \<and> dev_id (devs ! i) = dev_id (uevent_device e)
        \<and> (\<forall>j<i. dev_id (devs ! j) \<noteq> dev_id (uevent_device e))"
  then show "scan_hid_dir gen fs add devs e =
            devs[i := (devs ! i)\<lparr>subDevices :=
                   subDevices (devs ! i) @ sub_nodes fs (dev_id (uevent_device e)) e\<rparr>]"
    by (intro scan_hid_dir_existing) auto
qed

lemma usb_dirs_accepted: "accepted gen_none [] usb_input_dir" "accepted gen_none [] usb_hidraw_dir"
  by code_simp+

lemma usb_event_only_scan:
  "map dev_id (devices (scanForDevices gen_none sysfs_event_only [])) = [usb_id]"
  by code_simp

lemma usb_scan_files:
  "map (\<lambda>dev. map DeviceFile (subDevices dev)) (devices (scanForDevices gen_none sysfs_usb []))
     = [[''/dev/input/event5'', ''/dev/hidraw0'']]"
  by code_simp

theorem scanForDevices_one_device_per_id_witness:
  "root_exists sysfs_usb \<and> root_isExecutable sysfs_usb
   \<and> usb_hidraw_dir \<in> set (hid_dirs sysfs_usb) \<and> accepted gen_none [] usb_hidraw_dir
   \<and> distinct (map dev_id (devices (scanForDevices gen_none sysfs_usb [])))
   \<and> length (devices (scanForDevices gen_none sysfs_usb [])) = 1
   \<and> (\<exists>dev\<in>set (devices (scanForDevices gen_none sysfs_usb [])).
          dev_id dev = dev_id (uevent_device usb_hidraw_dir)
          \<and> set (sub_nodes sysfs_usb (dev_id dev) usb_hidraw_dir) \<subseteq> set (subDevices dev))
   \<and> (0::nat) < length (devices (scanForDevices gen_none sysfs_event_only []))
   \<and> dev_id (devices (scanForDevices gen_none sysfs_event_only []) ! 0)
        = dev_id (uevent_device usb_hidraw_dir)
   \<and> length (scan_hid_dir gen_none sysfs_usb []
                (devices (scanForDevices gen_none sysfs_event_only [])) usb_hidraw_dir) = 1"
proof -
  have root: "root_exists sysfs_usb \<and> root_isExecutable sysfs_usb"
    by (simp add: sysfs_usb_def)
  have mem: "usb_hidraw_dir \<in> set (hid_dirs sysfs_usb)"
    by (simp add: sysfs_usb_def)
  have len: "length (devices (scanForDevices gen_none sysfs_usb [])) = 1"
    using arg_cong [OF usb_scan, of length] by simp
  have len0: "length (devices (scanForDevices gen_none sysfs_event_only [])) = 1"
    using arg_cong [OF usb_event_only_scan, of length] by simp
  have id0: "dev_id (devices (scanForDevices gen_none sysfs_event_only []) ! 0)
        = dev_id (uevent_device usb_hidraw_dir)"
    using arg_cong [OF usb_event_only_scan, of "\<lambda>xs. xs ! 0"] len0
    by (simp add: usb_hidraw_dir_def usb_uevent_def)
  note inst = scanForDevices_one_device_per_id [where gen=gen_none and fs=sysfs_usb and add="[]"
      and e=usb_hidraw_dir and i=0 and devs="devices (scanForDevices gen_none sysfs_event_only [])"]
  have "scan_hid_dir gen_none sysfs_usb []
                (devices (scanForDevices gen_none sysfs_event_only [])) usb_hidraw_dir
        = (devices (scanForDevices gen_none sysfs_event_only []))
            [0 := (devices (scanForDevices gen_none sysfs_event_only []) ! 0)\<lparr>subDevices :=
                   subDevices (devices (scanForDevices gen_none sysfs_event_only []) ! 0)
                   @ sub_nodes sysfs_usb (dev_id (uevent_device usb_hidraw_dir)) usb_hidraw_dir\<rparr>]"
    using inst usb_dirs_accepted(2) len0 id0 by simp
  then have step: "length (scan_hid_dir gen_none sysfs_usb []
                (devices (scanForDevices gen_none sysfs_event_only [])) usb_hidraw_dir) = 1"
    using len0 by simp
  have one: "distinct (map dev_id (devices (scanForDevices gen_none sysfs_usb [])))"
    using inst by blast
  have sub: "\<exists>dev\<in>set (devices (scanForDevices gen_none sysfs_usb [])).
          dev_id dev = dev_id (uevent_device usb_hidraw_dir)
          \<and> set (sub_nodes sysfs_usb (dev_id dev) usb_hidraw_dir) \<subseteq> set (subDevices dev)"
    using inst root mem usb_dirs_accepted(2) by blast
  show ?thesis
    using root mem usb_dirs_accepted(2) len len0 id0 step one sub by simp
qed

lemma scan_input_nodes_hid_dirs:
  "scan_input_nodes (fs\<lparr>hid_dirs := xs\<rparr>) rid ns = scan_input_nodes fs rid ns"
  by (induction ns) (simp_all add: Let_def)

lemma scan_hidraw_nodes_hid_dirs:
  "scan_hidraw_nodes (fs\<lparr>hid_dirs := xs\<rparr>) hs = scan_hidraw_nodes fs hs"
  by (induction hs) (simp_all add: Let_def)

text \<open>
  C8: when the device-tree root does not exist or cannot be listed, the scan returns
  no device and one message that names the path and the failure. The scan is a total
  function: it has no failing branch. For every other tree, a HID directory that is
  not accepted (its \<^verbatim>\<open>uevent\<close> file is missing or unreadable, or its id is not
  supported) contributes nothing, so the result is the one of the tree without that
  directory, and leaving a directory out never adds a device id.
\<close>

theorem scanForDevices_errors_not_fatal:
  "(\<not> root_exists fs \<longrightarrow>
      scanForDevices gen fs add = ScanResult_default\<lparr>errorMessages :=
        [''HID device path '' @ [CHR 0x27] @ ''/sys/bus/hid/devices'' @ [CHR 0x27]
           @ '' does not exist.'']\<rparr>)
   \<and> (root_exists fs \<and> \<not> root_isExecutable fs \<longrightarrow>
      scanForDevices gen fs add = ScanResult_default\<lparr>errorMessages :=
        [''HID device path '' @ [CHR 0x27] @ ''/sys/bus/hid/devices'' @ [CHR 0x27]
           @ '': Cannot list files.'']\<rparr>)
   \<and> (\<not> root_exists fs \<or> \<not> root_isExecutable fs \<longrightarrow>
      devices (scanForDevices gen fs add) = []
      \<and> length (errorMessages (scanForDevices gen fs add)) = 1)
   \<and> (\<not> accepted gen add d \<longrightarrow>
      scanForDevices gen (fs\<lparr>hid_dirs := ds1 @ d # ds2\<rparr>) add
        = scanForDevices gen (fs\<lparr>hid_dirs := ds1 @ ds2\<rparr>) add)
   \<and> dev_id ` set (devices (scanForDevices gen (fs\<lparr>hid_dirs := ds1 @ ds2\<rparr>) add))
        \<subseteq> dev_id ` set (devices (scanForDevices gen (fs\<lparr>hid_dirs := ds1 @ d' # ds2\<rparr>) add))"
proof (intro conjI impI)
  show "dev_id ` set (devices (scanForDevices gen (fs\<lparr>hid_dirs := ds1 @ ds2\<rparr>) add))
        \<subseteq> dev_id ` set (devices (scanForDevices gen (fs\<lparr>hid_dirs := ds1 @ d' # ds2\<rparr>) add))"
    by (auto simp: scanForDevices_ids)
next
  assume "\<not> accepted gen add d"
  then have "scan_hid_dir gen (fs\<lparr>hid_dirs := ds1 @ d # ds2\<rparr>) add devs d = devs" for devs
    by (simp add: scan_hid_dir_def)
  moreover have "scan_hid_dir gen (fs\<lparr>hid_dirs := xs\<rparr>) add = scan_hid_dir gen fs add" for xs
    by (intro ext) (simp add: scan_hid_dir_def sub_nodes_def Let_def scan_input_nodes_hid_dirs scan_hidraw_nodes_hid_dirs)
  ultimately show "scanForDevices gen (fs\<lparr>hid_dirs := ds1 @ d # ds2\<rparr>) add
        = scanForDevices gen (fs\<lparr>hid_dirs := ds1 @ ds2\<rparr>) add"
    by (simp add: scanForDevices_def Let_def)
qed (simp_all add: scanForDevices_def ScanResult_default_def hidDevicePath_def)

theorem scanForDevices_errors_not_fatal_witness:
  "\<not> root_exists sysfs_no_root
   \<and> devices (scanForDevices gen_none sysfs_no_root []) = []
   \<and> length (errorMessages (scanForDevices gen_none sysfs_no_root [])) = 1
   \<and> root_exists (sysfs_usb\<lparr>root_isExecutable := False\<rparr>)
   \<and> \<not> root_isExecutable (sysfs_usb\<lparr>root_isExecutable := False\<rparr>)
   \<and> errorMessages (scanForDevices gen_none (sysfs_usb\<lparr>root_isExecutable := False\<rparr>) [])
        = [''HID device path '' @ [CHR 0x27] @ ''/sys/bus/hid/devices'' @ [CHR 0x27]
             @ '': Cannot list files.'']
   \<and> \<not> accepted gen_none [] broken_dir
   \<and> scanForDevices gen_none (sysfs_usb\<lparr>hid_dirs := [usb_input_dir] @ broken_dir # [usb_hidraw_dir]\<rparr>) []
        = scanForDevices gen_none (sysfs_usb\<lparr>hid_dirs := [usb_input_dir] @ [usb_hidraw_dir]\<rparr>) []"
proof -
  have a: "\<not> root_exists sysfs_no_root"
    by (simp add: sysfs_no_root_def)
  have b: "root_exists (sysfs_usb\<lparr>root_isExecutable := False\<rparr>)"
    "\<not> root_isExecutable (sysfs_usb\<lparr>root_isExecutable := False\<rparr>)"
    by (simp_all add: sysfs_usb_def)
  have c: "\<not> accepted gen_none [] broken_dir"
    by (simp add: accepted_def broken_dir_def)
  show ?thesis
    using a b c
      scanForDevices_errors_not_fatal [where fs=sysfs_no_root and gen=gen_none and add="[]"]
      scanForDevices_errors_not_fatal [where fs="sysfs_usb\<lparr>root_isExecutable := False\<rparr>"
        and gen=gen_none and add="[]"]
      scanForDevices_errors_not_fatal [where fs=sysfs_usb and gen=gen_none and add="[]"
        and d=broken_dir and ?ds1.0="[usb_input_dir]" and ?ds2.0="[usb_hidraw_dir]"]
    by (simp add: ScanResult_default_def)
qed

section \<open>The loop of removeSubDeviceConnection\<close>

lemma removeSubDeviceConnection_loop_Some:
  "removeSubDeviceConnection_loop i path subDevs = Some r \<Longrightarrow>
     i = length subDevs \<or> DeviceFile (subDevs ! i) = path"
proof (induction rule: removeSubDeviceConnection_loop.raw_induct [rotated 1, consumes 1])
  case (1 rec i path subDevs r)
  then show ?case by (auto split: if_splits)
qed

lemma removeSubDeviceConnection_loop_None:
  assumes "i \<noteq> length subDevs" "DeviceFile (subDevs ! i) \<noteq> path"
  shows "removeSubDeviceConnection_loop i path subDevs = None"
proof (cases "removeSubDeviceConnection_loop i path subDevs")
  case None
  then show ?thesis .
next
  case (Some r)
  from removeSubDeviceConnection_loop_Some [OF this] assms show ?thesis by simp
qed

lemma removeSubDeviceConnection_loop_match:
  assumes "i \<noteq> length subDevs" "DeviceFile (subDevs ! i) = path"
  shows "removeSubDeviceConnection_loop i path subDevs = Some (take i subDevs @ drop (Suc i) subDevs)"
  using assms by (subst removeSubDeviceConnection_loop.simps) simp

lemma removeSubDeviceConnection_diverges:
  assumes "m_device s = Some d" "subDevices d \<noteq> []" "DeviceFile (hd (subDevices d)) \<noteq> path"
  shows "removeSubDeviceConnection s path = None"
proof -
  have "removeSubDeviceConnection_loop 0 path (subDevices d) = None"
    using assms(2,3) by (intro removeSubDeviceConnection_loop_None) (auto simp: hd_conv_nth)
  with assms(1,2) show ?thesis
    by (simp add: removeSubDeviceConnection_def)
qed

lemma removeSubDeviceConnection_returns_iff:
  "(\<exists>s'. removeSubDeviceConnection s path = Some s') \<longleftrightarrow>
     (case m_device s of None \<Rightarrow> True
      | Some d \<Rightarrow> subDevices d = [] \<or> DeviceFile (hd (subDevices d)) = path)"
proof (cases "m_device s")
  case None
  then show ?thesis by (simp add: removeSubDeviceConnection_def)
next
  case (Some d)
  show ?thesis
  proof (cases "subDevices d = []")
    case True
    with Some show ?thesis by (simp add: removeSubDeviceConnection_def)
  next
    case False
    show ?thesis
    proof (cases "DeviceFile (hd (subDevices d)) = path")
      case True
      then have "removeSubDeviceConnection_loop 0 path (subDevices d)
                   = Some (take 0 (subDevices d) @ drop (Suc 0) (subDevices d))"
        using False by (intro removeSubDeviceConnection_loop_match) (auto simp: hd_conv_nth)
      with Some False True show ?thesis by (simp add: removeSubDeviceConnection_def)
    next
      case neq: False
      from removeSubDeviceConnection_diverges [OF Some False neq] Some False neq
      show ?thesis by simp
    qed
  qed
qed

lemma hidraw_first_files:
  "map_option (\<lambda>d. map DeviceFile (subDevices d))
     (m_device (fst (snd (connectDevice gen_none sysfs_hidraw_first os_ok Spotlight_initial DeviceId_default))))
   = Some [''/dev/hidraw0'', ''/dev/input/event5'']"
  by code_simp

text \<open>
  C9, which says that \<^verbatim>\<open>removeSubDeviceConnection\<close> returns for every device state
  and every device file. The call returns exactly when there is no device, no
  sub-device, or the first sub-device has the file (lemma
  \<open>removeSubDeviceConnection_returns_iff\<close>). After connecting the device whose hidraw
  interface is listed first, the deferred removal of \<^verbatim>\<open>/dev/input/event5\<close>, the
  second entry, does not return.
\<close>

theorem removeSubDeviceConnection_second_entry_never_returns:
  "removeSubDeviceConnection
     (fst (snd (connectDevice gen_none sysfs_hidraw_first os_ok Spotlight_initial DeviceId_default)))
     ''/dev/input/event5'' = None"
proof -
  let ?s = "fst (snd (connectDevice gen_none sysfs_hidraw_first os_ok Spotlight_initial DeviceId_default))"
  from hidraw_first_files obtain d where d: "m_device ?s = Some d"
    "map DeviceFile (subDevices d) = [''/dev/hidraw0'', ''/dev/input/event5'']"
    by auto
  from d(2) have "subDevices d \<noteq> []" "DeviceFile (hd (subDevices d)) \<noteq> ''/dev/input/event5''"
    by (cases "subDevices d"; auto)+
  with d(1) show ?thesis by (rule removeSubDeviceConnection_diverges)
qed

section \<open>The handler of an event sub-device\<close>

subsection \<open>One record\<close>

lemma buffered_write:
  "buffered (buf\<lparr>buf_data := (buf_data buf)(buf_pos buf := e), buf_pos := Suc (buf_pos buf)\<rparr>)
     = buffered buf @ [e]"
  by (simp add: buffered_def)

lemma first_written:
  "isMouseMoveEvent (((buf_data buf)(buf_pos buf := e)) 0) = motion_frame (buffered buf @ [e])"
proof (cases "buf_pos buf")
  case 0
  then show ?thesis by (simp add: buffered_def motion_frame_def)
next
  case (Suc n)
  then have "buffered buf = buf_data buf 0 # map (buf_data buf) [Suc 0..<Suc n]"
    by (simp add: buffered_def upt_conv_Cons del: upt_Suc)
  with Suc show ?thesis by (simp add: motion_frame_def)
qed

lemma process_event_syn:
  assumes "ev_type e = EV_SYN"
  shows "process_event ops st e =
     (let frame = buffered (inputBuffer (conn st)) @ [e];
          buf' = \<lparr>buf_data = (buf_data (inputBuffer (conn st)))(buf_pos (inputBuffer (conn st)) := e),
                  buf_pos = 0\<rparr>
      in if motion_frame frame
         then (st\<lparr>spotlight :=
                    (if recordingMode ops (mapper st) then spotlight st
                     else if m_activeTimer_isActive (spotlight st)
                          then (spotlight st)\<lparr>m_activeTimer_isActive := True\<rparr>
                          else (spotlight st)\<lparr>m_spotActive := True, m_activeTimer_isActive := True\<rparr>),
                  conn := (conn st)\<lparr>inputBuffer := buf'\<rparr>\<rparr>,
               (if recordingMode ops (mapper st) then []
                else if m_activeTimer_isActive (spotlight st) then [Call_activeTimer_start]
                     else [spotActiveChanged True, Call_activeTimer_start])
               @ (if m_virtualDevice (spotlight st) then [Call_emitEvents frame] else []))
         else (st\<lparr>mapper := addEvents ops frame (mapper st),
                  conn := (conn st)\<lparr>inputBuffer := buf'\<rparr>\<rparr>,
               [Call_addEvents frame]))"
  using assms
  by (simp add: process_event_def Let_def buffered_write first_written del: fun_upd_apply)

lemma process_event_not_syn:
  assumes "ev_type e \<noteq> EV_SYN"
  shows "process_event ops st e =
     (if buf_size \<le> Suc (buf_pos (inputBuffer (conn st)))
      then (st\<lparr>mapper := resetState ops (mapper st),
               conn := (conn st)\<lparr>inputBuffer :=
                 \<lparr>buf_data = (buf_data (inputBuffer (conn st)))(buf_pos (inputBuffer (conn st)) := e),
                  buf_pos = 0\<rparr>\<rparr>\<rparr>,
            [Call_resetState])
      else (st\<lparr>conn := (conn st)\<lparr>inputBuffer :=
                 \<lparr>buf_data = (buf_data (inputBuffer (conn st)))(buf_pos (inputBuffer (conn st)) := e),
                  buf_pos = Suc (buf_pos (inputBuffer (conn st)))\<rparr>\<rparr>\<rparr>,
            []))"
  using assms
  by (simp add: process_event_def Let_def)

lemma process_event_pos:
  assumes "buf_pos (inputBuffer (conn st)) < buf_size"
  shows "buf_pos (inputBuffer (conn (fst (process_event ops st e)))) < buf_size"
proof (cases "ev_type e = EV_SYN")
  case True
  then show ?thesis
    by (simp add: process_event_syn Let_def buf_size_def)
next
  case False
  then show ?thesis
    by (simp add: process_event_not_syn buf_size_def)
qed

lemma process_event_effects:
  "(\<forall>f. Call_addEvents f \<in> set (snd (process_event ops st e)) \<longrightarrow> \<not> motion_frame f)
   \<and> (\<forall>f. Call_emitEvents f \<in> set (snd (process_event ops st e)) \<longrightarrow> motion_frame f)"
proof (cases "ev_type e = EV_SYN")
  case True
  then show ?thesis
    by (simp add: process_event_syn Let_def)
next
  case False
  then show ?thesis
    by (simp add: process_event_not_syn)
qed

lemma read_failed_buffer:
  "inputBuffer (conn (fst (read_failed dev st errno))) = inputBuffer (conn st)"
  by (simp add: read_failed_def)

lemma read_failed_effects:
  "Call_addEvents f \<notin> set (snd (read_failed dev st errno))"
  "Call_emitEvents f \<notin> set (snd (read_failed dev st errno))"
  by (simp_all add: read_failed_def)

lemma handler_returns:
  "buf_pos (inputBuffer (conn st)) < buf_size \<Longrightarrow>
   \<exists>st' es. onEventSubDeviceDataAvailable ops dev reads st = Inr (st', es)
      \<and> buf_pos (inputBuffer (conn st')) < buf_size"
proof (induction reads arbitrary: st)
  case Nil
  then show ?case
    using read_failed_buffer [of dev st EAGAIN]
    by (cases "read_failed dev st EAGAIN") auto
next
  case (Cons r rs)
  show ?case
  proof (cases r)
    case (ReadFail errno)
    with Cons.prems show ?thesis
      using read_failed_buffer [of dev st errno]
      by (cases "read_failed dev st errno") auto
  next
    case (ReadOk e)
    obtain st1 es1 where pe: "process_event ops st e = (st1, es1)"
      by (cases "process_event ops st e")
    with process_event_pos [OF Cons.prems, of ops e]
    have pos1: "buf_pos (inputBuffer (conn st1)) < buf_size" by simp
    from Cons.IH [OF pos1] obtain st2 es2 where
      "onEventSubDeviceDataAvailable ops dev rs st1 = Inr (st2, es2)"
      "buf_pos (inputBuffer (conn st2)) < buf_size"
      by blast
    with Cons.prems ReadOk pe pos1 show ?thesis by simp
  qed
qed

lemma handler_effects:
  "onEventSubDeviceDataAvailable ops dev reads st = Inr (st', es) \<Longrightarrow>
   (\<forall>f. Call_addEvents f \<in> set es \<longrightarrow> \<not> motion_frame f)
   \<and> (\<forall>f. Call_emitEvents f \<in> set es \<longrightarrow> motion_frame f)"
proof (induction reads arbitrary: st st' es)
  case Nil
  then show ?case
    using read_failed_effects [of _ dev st EAGAIN]
    by (auto split: if_splits)
next
  case (Cons r rs)
  show ?case
  proof (cases r)
    case (ReadFail errno)
    with Cons.prems show ?thesis
      using read_failed_effects [of _ dev st errno]
      by (auto split: if_splits)
  next
    case (ReadOk e)
    obtain st1 es1 where pe: "process_event ops st e = (st1, es1)"
      by (cases "process_event ops st e")
    from process_event_effects [of ops st e] pe
    have good1: "(\<forall>f. Call_addEvents f \<in> set es1 \<longrightarrow> \<not> motion_frame f)
       \<and> (\<forall>f. Call_emitEvents f \<in> set es1 \<longrightarrow> motion_frame f)"
      by simp
    show ?thesis
    proof (cases "deviceFlags dev AND NonBlocking \<noteq> 0")
      case False
      with Cons.prems ReadOk pe have "es = es1"
        by (auto split: if_splits)
      with good1 show ?thesis by simp
    next
      case True
      with Cons.prems ReadOk pe obtain es2 where
        rest: "onEventSubDeviceDataAvailable ops dev rs st1 = Inr (st', es2)" and es: "es = es1 @ es2"
        by (auto split: if_splits sum.splits)
      from Cons.IH [OF rest] good1 es show ?thesis by auto
    qed
  qed
qed

lemma handler_single_record:
  assumes "buf_pos (inputBuffer (conn st)) < buf_size"
  shows "onEventSubDeviceDataAvailable ops dev [ReadOk e] st = Inr (process_event ops st e)"
proof -
  obtain st1 es1 where pe: "process_event ops st e = (st1, es1)"
    by (cases "process_event ops st e")
  with process_event_pos [OF assms, of ops e]
  have "buf_pos (inputBuffer (conn st1)) < buf_size" by simp
  with assms pe show ?thesis
    by (simp add: read_failed_def)
qed

lemma notifications_returns:
  "buf_pos (inputBuffer (conn st)) < buf_size \<Longrightarrow>
   \<exists>st' es. notifications ops dev bursts st = Inr (st', es)
      \<and> buf_pos (inputBuffer (conn st')) < buf_size"
proof (induction bursts arbitrary: st)
  case Nil
  then show ?case by simp
next
  case (Cons b bs)
  from handler_returns [OF Cons.prems, of ops dev b] obtain st1 es1 where
    h: "onEventSubDeviceDataAvailable ops dev b st = Inr (st1, es1)"
    "buf_pos (inputBuffer (conn st1)) < buf_size"
    by blast
  from Cons.IH [OF h(2)] obtain st2 es2 where
    "notifications ops dev bs st1 = Inr (st2, es2)" "buf_pos (inputBuffer (conn st2)) < buf_size"
    by blast
  with h Cons.prems show ?case by simp
qed

lemma notifications_effects:
  "notifications ops dev bursts st = Inr (st', es) \<Longrightarrow>
   (\<forall>f. Call_addEvents f \<in> set es \<longrightarrow> \<not> motion_frame f)
   \<and> (\<forall>f. Call_emitEvents f \<in> set es \<longrightarrow> motion_frame f)"
proof (induction bursts arbitrary: st st' es)
  case Nil
  then show ?case by simp
next
  case (Cons b bs)
  show ?case
  proof (cases "notifier (conn st) = Some True")
    case False
    with Cons.prems show ?thesis by simp
  next
    case True
    with Cons.prems obtain st1 es1 es2 where
      h: "onEventSubDeviceDataAvailable ops dev b st = Inr (st1, es1)"
      and rest: "notifications ops dev bs st1 = Inr (st', es2)" and es: "es = es1 @ es2"
      by (auto split: sum.splits)
    from handler_effects [OF h] Cons.IH [OF rest] es show ?thesis by auto
  qed
qed

subsection \<open>Motion frames and the input mapper\<close>

text \<open>
  C4: when the record read is a synchronization marker, the frame is the buffered
  records followed by the marker. If its first record is a relative motion on the X or
  Y axis, the handler makes no call of \<^verbatim>\<open>addEvents\<close> and leaves the input mapper as
  it is; it passes the whole frame to \<^verbatim>\<open>emitEvents\<close> of the virtual device if there
  is one, and emits nothing otherwise. Every other frame is passed whole to
  \<^verbatim>\<open>addEvents\<close>, and that is the only effect. Over any sequence of notifications,
  no frame given to \<^verbatim>\<open>addEvents\<close> is a motion frame and every frame given to
  \<^verbatim>\<open>emitEvents\<close> is one.
\<close>

theorem motion_frames_bypass_recorder:
  "(ev_type e = EV_SYN \<longrightarrow>
      (motion_frame (buffered (inputBuffer (conn st)) @ [e]) \<longrightarrow>
         (\<forall>f. Call_addEvents f \<notin> set (snd (process_event ops st e)))
         \<and> mapper (fst (process_event ops st e)) = mapper st
         \<and> (m_virtualDevice (spotlight st) \<longrightarrow>
              Call_emitEvents (buffered (inputBuffer (conn st)) @ [e])
                \<in> set (snd (process_event ops st e)))
         \<and> (\<not> m_virtualDevice (spotlight st) \<longrightarrow>
              (\<forall>f. Call_emitEvents f \<notin> set (snd (process_event ops st e)))))
      \<and> (\<not> motion_frame (buffered (inputBuffer (conn st)) @ [e]) \<longrightarrow>
         snd (process_event ops st e) = [Call_addEvents (buffered (inputBuffer (conn st)) @ [e])]
         \<and> mapper (fst (process_event ops st e))
             = addEvents ops (buffered (inputBuffer (conn st)) @ [e]) (mapper st)))
   \<and> (notifications ops dev bursts st0 = Inr (st', es) \<longrightarrow>
        (\<forall>f. Call_addEvents f \<in> set es \<longrightarrow> \<not> motion_frame f)
        \<and> (\<forall>f. Call_emitEvents f \<in> set es \<longrightarrow> motion_frame f))"
proof (intro conjI impI)
  assume "notifications ops dev bursts st0 = Inr (st', es)"
  from notifications_effects [OF this]
  show "\<forall>f. Call_addEvents f \<in> set es \<longrightarrow> \<not> motion_frame f"
    and "\<forall>f. Call_emitEvents f \<in> set es \<longrightarrow> motion_frame f"
    by simp_all
qed (simp_all add: process_event_syn Let_def)

lemma event5_run:
  "map_sum id snd (notifications ops_flag event5_dev
     [[ReadOk (mk_event EV_REL REL_X 5), ReadOk (mk_event EV_SYN 0 0)],
      [ReadOk (mk_event EV_KEY KEY_RIGHT 1), ReadOk (mk_event EV_SYN 0 0)]] event5_handler)
   = Inr [spotActiveChanged True, Call_activeTimer_start,
          Call_emitEvents [mk_event EV_REL REL_X 5, mk_event EV_SYN 0 0],
          Call_addEvents [mk_event EV_KEY KEY_RIGHT 1, mk_event EV_SYN 0 0]]"
  by code_simp

theorem motion_frames_bypass_recorder_witness:
  "ev_type (mk_event EV_SYN 0 0) = EV_SYN
   \<and> motion_frame (buffered (inputBuffer (conn
         (fst (process_event ops_flag event5_handler (mk_event EV_REL REL_X 5))))) @ [mk_event EV_SYN 0 0])
   \<and> m_virtualDevice (spotlight (fst (process_event ops_flag event5_handler (mk_event EV_REL REL_X 5))))
   \<and> Call_emitEvents [mk_event EV_REL REL_X 5, mk_event EV_SYN 0 0]
        \<in> set (snd (process_event ops_flag
                 (fst (process_event ops_flag event5_handler (mk_event EV_REL REL_X 5))) (mk_event EV_SYN 0 0)))
   \<and> (\<forall>f. Call_addEvents f
        \<notin> set (snd (process_event ops_flag
                 (fst (process_event ops_flag event5_handler (mk_event EV_REL REL_X 5))) (mk_event EV_SYN 0 0))))
   \<and> \<not> motion_frame (buffered (inputBuffer (conn
         (fst (process_event ops_flag event5_handler (mk_event EV_KEY KEY_RIGHT 1))))) @ [mk_event EV_SYN 0 0])
   \<and> snd (process_event ops_flag
           (fst (process_event ops_flag event5_handler (mk_event EV_KEY KEY_RIGHT 1))) (mk_event EV_SYN 0 0))
       = [Call_addEvents [mk_event EV_KEY KEY_RIGHT 1, mk_event EV_SYN 0 0]]
   \<and> (\<exists>st' es. notifications ops_flag event5_dev
         [[ReadOk (mk_event EV_REL REL_X 5), ReadOk (mk_event EV_SYN 0 0)],
          [ReadOk (mk_event EV_KEY KEY_RIGHT 1), ReadOk (mk_event EV_SYN 0 0)]] event5_handler = Inr (st', es)
        \<and> Call_addEvents [mk_event EV_KEY KEY_RIGHT 1, mk_event EV_SYN 0 0] \<in> set es
        \<and> \<not> motion_frame [mk_event EV_KEY KEY_RIGHT 1, mk_event EV_SYN 0 0]
        \<and> Call_emitEvents [mk_event EV_REL REL_X 5, mk_event EV_SYN 0 0] \<in> set es
        \<and> motion_frame [mk_event EV_REL REL_X 5, mk_event EV_SYN 0 0])"
proof -
  let ?syn = "mk_event EV_SYN 0 0"
  let ?rel = "fst (process_event ops_flag event5_handler (mk_event EV_REL REL_X 5))"
  let ?key = "fst (process_event ops_flag event5_handler (mk_event EV_KEY KEY_RIGHT 1))"
  have syn: "ev_type ?syn = EV_SYN"
    by (simp add: mk_event_def)
  have brel: "buffered (inputBuffer (conn ?rel)) = [mk_event EV_REL REL_X 5]"
    by code_simp
  have bkey: "buffered (inputBuffer (conn ?key)) = [mk_event EV_KEY KEY_RIGHT 1]"
    by code_simp
  have mrel: "motion_frame (buffered (inputBuffer (conn ?rel)) @ [?syn])"
    unfolding brel by code_simp
  have mkey: "\<not> motion_frame (buffered (inputBuffer (conn ?key)) @ [?syn])"
    unfolding bkey by code_simp
  have vd: "m_virtualDevice (spotlight ?rel)"
    by code_simp
  note a = motion_frames_bypass_recorder [where e="?syn" and st="?rel" and ops=ops_flag
      and bursts="[]" and st0="?rel" and st'="?rel" and es="[]" and dev=event5_dev]
  note b = motion_frames_bypass_recorder [where e="?syn" and st="?key" and ops=ops_flag
      and bursts="[]" and st0="?key" and st'="?key" and es="[]" and dev=event5_dev]
  have c1: "Call_emitEvents [mk_event EV_REL REL_X 5, ?syn] \<in> set (snd (process_event ops_flag ?rel ?syn))"
    "\<forall>f. Call_addEvents f \<notin> set (snd (process_event ops_flag ?rel ?syn))"
    using a syn mrel vd brel by simp_all
  have c2: "snd (process_event ops_flag ?key ?syn) = [Call_addEvents [mk_event EV_KEY KEY_RIGHT 1, ?syn]]"
    using b syn mkey bkey by simp
  obtain r where r: "notifications ops_flag event5_dev
         [[ReadOk (mk_event EV_REL REL_X 5), ReadOk ?syn],
          [ReadOk (mk_event EV_KEY KEY_RIGHT 1), ReadOk ?syn]] event5_handler = r"
    by simp
  with event5_run obtain st' es where
    run: "r = Inr (st', es)" and es: "es = [spotActiveChanged True, Call_activeTimer_start,
          Call_emitEvents [mk_event EV_REL REL_X 5, ?syn],
          Call_addEvents [mk_event EV_KEY KEY_RIGHT 1, ?syn]]"
    by (cases r) auto
  from motion_frames_bypass_recorder [where bursts="[[ReadOk (mk_event EV_REL REL_X 5), ReadOk ?syn],
          [ReadOk (mk_event EV_KEY KEY_RIGHT 1), ReadOk ?syn]]" and ops=ops_flag and dev=event5_dev
          and st0=event5_handler and st'=st' and es=es] r run
  have g: "\<forall>f. Call_addEvents f \<in> set es \<longrightarrow> \<not> motion_frame f"
    "\<forall>f. Call_emitEvents f \<in> set es \<longrightarrow> motion_frame f"
    by simp_all
  have "Call_addEvents [mk_event EV_KEY KEY_RIGHT 1, ?syn] \<in> set es"
    "Call_emitEvents [mk_event EV_REL REL_X 5, ?syn] \<in> set es"
    using es by simp_all
  with g have "\<not> motion_frame [mk_event EV_KEY KEY_RIGHT 1, ?syn]" "motion_frame [mk_event EV_REL REL_X 5, ?syn]"
    by blast+
  with r run es have last: "\<exists>st' es. notifications ops_flag event5_dev
         [[ReadOk (mk_event EV_REL REL_X 5), ReadOk ?syn],
          [ReadOk (mk_event EV_KEY KEY_RIGHT 1), ReadOk ?syn]] event5_handler = Inr (st', es)
        \<and> Call_addEvents [mk_event EV_KEY KEY_RIGHT 1, ?syn] \<in> set es
        \<and> \<not> motion_frame [mk_event EV_KEY KEY_RIGHT 1, ?syn]
        \<and> Call_emitEvents [mk_event EV_REL REL_X 5, ?syn] \<in> set es
        \<and> motion_frame [mk_event EV_REL REL_X 5, ?syn]"
    by simp
  show ?thesis
    using syn mrel vd c1 mkey c2 last by blast
qed

subsection \<open>The handler against the specification's frame buffer\<close>

lemma length_buffered: "length (buffered buf) = buf_pos buf"
  by (simp add: buffered_def)

lemma process_event_demux:
  "buffered (inputBuffer (conn (fst (process_event ops st e))))
     = fst (demux_step (buffered (inputBuffer (conn st))) e)"
  "count_list (snd (process_event ops st e)) Call_resetState
     = snd (demux_step (buffered (inputBuffer (conn st))) e)"
  "buf_pos (inputBuffer (conn (fst (process_event ops st e))))
     = length (fst (demux_step (buffered (inputBuffer (conn st))) e))"
proof -
  show "buffered (inputBuffer (conn (fst (process_event ops st e))))
     = fst (demux_step (buffered (inputBuffer (conn st))) e)"
  proof (cases "ev_type e = EV_SYN")
    case True
    then show ?thesis
      by (simp add: process_event_syn Let_def demux_step_def buffered_def)
  next
    case False
    then show ?thesis
      using buffered_write [of "inputBuffer (conn st)" e]
      by (simp add: process_event_not_syn demux_step_def length_buffered) (simp add: buffered_def)
  qed
  show "count_list (snd (process_event ops st e)) Call_resetState
     = snd (demux_step (buffered (inputBuffer (conn st))) e)"
  proof (cases "ev_type e = EV_SYN")
    case True
    then show ?thesis
      by (simp add: process_event_syn Let_def demux_step_def)
  next
    case False
    then show ?thesis
      by (simp add: process_event_not_syn demux_step_def length_buffered)
  qed
  show "buf_pos (inputBuffer (conn (fst (process_event ops st e))))
     = length (fst (demux_step (buffered (inputBuffer (conn st))) e))"
  proof (cases "ev_type e = EV_SYN")
    case True
    then show ?thesis
      by (simp add: process_event_syn Let_def demux_step_def)
  next
    case False
    then show ?thesis
      by (simp add: process_event_not_syn demux_step_def length_buffered)
  qed
qed

lemma process_event_mapper:
  "mapper (fst (process_event ops st e)) = apply_calls ops (snd (process_event ops st e)) (mapper st)"
proof (cases "ev_type e = EV_SYN")
  case True
  then show ?thesis
    by (simp add: process_event_syn Let_def apply_calls_def apply_call_def)
next
  case False
  then show ?thesis
    by (simp add: process_event_not_syn apply_calls_def apply_call_def)
qed

lemma process_event_notifier:
  "notifier (conn (fst (process_event ops st e))) = notifier (conn st)"
proof (cases "ev_type e = EV_SYN")
  case True
  then show ?thesis
    by (simp add: process_event_syn Let_def)
next
  case False
  then show ?thesis
    by (simp add: process_event_not_syn)
qed

lemma apply_calls_append:
  "apply_calls ops (es1 @ es2) m = apply_calls ops es2 (apply_calls ops es1 m)"
  by (simp add: apply_calls_def)

lemma read_failed_facts:
  "mapper (fst (read_failed dev st errno)) = mapper st"
  "apply_calls ops (snd (read_failed dev st errno)) m = m"
  "count_list (snd (read_failed dev st errno)) Call_resetState = 0"
  "notifier (conn st) = Some True \<Longrightarrow>
     (notifier (conn (fst (read_failed dev st errno))) = Some True) = (errno = EAGAIN)"
  by (simp_all add: read_failed_def apply_calls_def apply_call_def)

lemma handler_refines:
  "buf_pos (inputBuffer (conn st)) < buf_size \<Longrightarrow>
   \<exists>st' es. onEventSubDeviceDataAvailable ops dev reads st = Inr (st', es)
      \<and> buf_pos (inputBuffer (conn st')) < buf_size
      \<and> buffered (inputBuffer (conn st'))
          = fst (demux_spec (buffered (inputBuffer (conn st)))
                   (records_read (deviceFlags dev AND NonBlocking \<noteq> 0) reads))
      \<and> count_list es Call_resetState
          = snd (demux_spec (buffered (inputBuffer (conn st)))
                   (records_read (deviceFlags dev AND NonBlocking \<noteq> 0) reads))
      \<and> mapper st' = apply_calls ops es (mapper st)
      \<and> (notifier (conn st) = Some True \<longrightarrow>
            (notifier (conn st') = Some True)
              = (\<not> read_stops_notifier (deviceFlags dev AND NonBlocking \<noteq> 0) reads))"
proof (induction reads arbitrary: st)
  case Nil
  then show ?case
    using read_failed_buffer [of dev st EAGAIN]
    by (cases "read_failed dev st EAGAIN")
      (use read_failed_facts(1,3) [of dev st EAGAIN] read_failed_facts(2) [of ops dev st EAGAIN]
        read_failed_facts(4) [of st dev EAGAIN] in auto)
next
  case (Cons r rs)
  let ?nb = "deviceFlags dev AND NonBlocking \<noteq> 0"
  show ?case
  proof (cases r)
    case (ReadFail errno)
    with Cons.prems show ?thesis
      using read_failed_buffer [of dev st errno]
      by (cases "read_failed dev st errno")
        (use read_failed_facts(1,3) [of dev st errno] read_failed_facts(2) [of ops dev st errno]
          read_failed_facts(4) [of st dev errno] in auto)
  next
    case (ReadOk e)
    obtain st1 es1 where pe: "process_event ops st e = (st1, es1)"
      by (cases "process_event ops st e")
    obtain p1 n1 where ds: "demux_step (buffered (inputBuffer (conn st))) e = (p1, n1)"
      by (cases "demux_step (buffered (inputBuffer (conn st))) e")
    from process_event_pos [OF Cons.prems, of ops e] pe
    have pos1: "buf_pos (inputBuffer (conn st1)) < buf_size" by simp
    from process_event_demux [of ops st e] pe ds
    have b1: "buffered (inputBuffer (conn st1)) = p1" "count_list es1 Call_resetState = n1"
      by simp_all
    from process_event_mapper [of ops st e] pe
    have m1: "mapper st1 = apply_calls ops es1 (mapper st)" by simp
    from process_event_notifier [of ops st e] pe
    have nt1: "notifier (conn st1) = notifier (conn st)" by simp
    show ?thesis
    proof (cases ?nb)
      case False
      with Cons.prems ReadOk pe pos1 b1 m1 nt1 ds show ?thesis
        by simp
    next
      case True
      from Cons.IH [OF pos1] obtain st2 es2 where
        h: "onEventSubDeviceDataAvailable ops dev rs st1 = Inr (st2, es2)"
        "buf_pos (inputBuffer (conn st2)) < buf_size"
        "buffered (inputBuffer (conn st2)) = fst (demux_spec p1 (records_read ?nb rs))"
        "count_list es2 Call_resetState = snd (demux_spec p1 (records_read ?nb rs))"
        "mapper st2 = apply_calls ops es2 (mapper st1)"
        "notifier (conn st1) = Some True \<longrightarrow>
            (notifier (conn st2) = Some True) = (\<not> read_stops_notifier ?nb rs)"
        using b1 by auto
      obtain p2 n2 where d2: "demux_spec p1 (records_read ?nb rs) = (p2, n2)"
        by (cases "demux_spec p1 (records_read ?nb rs)")
      have res: "onEventSubDeviceDataAvailable ops dev (r # rs) st = Inr (st2, es1 @ es2)"
        using Cons.prems ReadOk pe True h(1) by simp
      have "buffered (inputBuffer (conn st2))
              = fst (demux_spec (buffered (inputBuffer (conn st))) (records_read ?nb (r # rs)))"
        "count_list (es1 @ es2) Call_resetState
              = snd (demux_spec (buffered (inputBuffer (conn st))) (records_read ?nb (r # rs)))"
        using ReadOk True ds d2 h(3,4) b1(2) by simp_all
      moreover have "mapper st2 = apply_calls ops (es1 @ es2) (mapper st)"
        using h(5) m1 by (simp add: apply_calls_append)
      moreover have "notifier (conn st) = Some True \<longrightarrow>
            (notifier (conn st2) = Some True) = (\<not> read_stops_notifier ?nb (r # rs))"
        using h(6) nt1 ReadOk True by simp
      ultimately show ?thesis
        using res h(2) by blast
    qed
  qed
qed

lemma demux_spec_append:
  "demux_spec p (xs @ ys) =
     (fst (demux_spec (fst (demux_spec p xs)) ys),
      snd (demux_spec p xs) + snd (demux_spec (fst (demux_spec p xs)) ys))"
proof (induction xs arbitrary: p)
  case Nil
  then show ?case by simp
next
  case (Cons x xs)
  obtain p1 n1 where ds: "demux_step p x = (p1, n1)"
    by (cases "demux_step p x")
  show ?case
    using Cons.IH [of p1] ds by (simp add: split_beta)
qed

lemma notifications_refines:
  "buf_pos (inputBuffer (conn st)) < buf_size \<Longrightarrow> notifier (conn st) = Some True \<Longrightarrow>
   \<exists>st' es. notifications ops dev bursts st = Inr (st', es)
      \<and> buf_pos (inputBuffer (conn st')) < buf_size
      \<and> buffered (inputBuffer (conn st'))
          = fst (demux_spec (buffered (inputBuffer (conn st)))
                   (records_delivered (deviceFlags dev AND NonBlocking \<noteq> 0) bursts))
      \<and> count_list es Call_resetState
          = snd (demux_spec (buffered (inputBuffer (conn st)))
                   (records_delivered (deviceFlags dev AND NonBlocking \<noteq> 0) bursts))
      \<and> mapper st' = apply_calls ops es (mapper st)"
proof (induction bursts arbitrary: st)
  case Nil
  then show ?case by (simp add: apply_calls_def)
next
  case (Cons b bs)
  let ?nb = "deviceFlags dev AND NonBlocking \<noteq> 0"
  from handler_refines [OF Cons.prems(1), of ops dev b] Cons.prems(2)
  obtain st1 es1 where
    h: "onEventSubDeviceDataAvailable ops dev b st = Inr (st1, es1)"
    "buf_pos (inputBuffer (conn st1)) < buf_size"
    "buffered (inputBuffer (conn st1))
       = fst (demux_spec (buffered (inputBuffer (conn st))) (records_read ?nb b))"
    "count_list es1 Call_resetState
       = snd (demux_spec (buffered (inputBuffer (conn st))) (records_read ?nb b))"
    "mapper st1 = apply_calls ops es1 (mapper st)"
    "(notifier (conn st1) = Some True) = (\<not> read_stops_notifier ?nb b)"
    by auto
  show ?case
  proof (cases "read_stops_notifier ?nb b")
    case True
    then have "notifier (conn st1) \<noteq> Some True"
      using h(6) by simp
    then have "notifications ops dev bs st1 = Inr (st1, [])"
      by (cases bs) simp_all
    with Cons.prems(2) h True show ?thesis
      by simp
  next
    case False
    then have en: "notifier (conn st1) = Some True"
      using h(6) by simp
    from Cons.IH [OF h(2) en] obtain st2 es2 where
      r: "notifications ops dev bs st1 = Inr (st2, es2)"
      "buf_pos (inputBuffer (conn st2)) < buf_size"
      "buffered (inputBuffer (conn st2))
         = fst (demux_spec (buffered (inputBuffer (conn st1))) (records_delivered ?nb bs))"
      "count_list es2 Call_resetState
         = snd (demux_spec (buffered (inputBuffer (conn st1))) (records_delivered ?nb bs))"
      "mapper st2 = apply_calls ops es2 (mapper st1)"
      by blast
    have res: "notifications ops dev (b # bs) st = Inr (st2, es1 @ es2)"
      using Cons.prems(2) h(1) r(1) by simp
    have "buffered (inputBuffer (conn st2))
          = fst (demux_spec (buffered (inputBuffer (conn st))) (records_delivered ?nb (b # bs)))"
      "count_list (es1 @ es2) Call_resetState
          = snd (demux_spec (buffered (inputBuffer (conn st))) (records_delivered ?nb (b # bs)))"
      using False r(3,4) h(3,4) by (simp_all add: demux_spec_append)
    moreover have "mapper st2 = apply_calls ops (es1 @ es2) (mapper st)"
      using r(5) h(5) by (simp add: apply_calls_append)
    ultimately show ?thesis
      using res r(2) by blast
  qed
qed

lemma handler_overflow:
  assumes "Suc (buf_pos (inputBuffer (conn st))) = buf_size" "ev_type e \<noteq> EV_SYN"
  shows "onEventSubDeviceDataAvailable ops dev (ReadOk e # rs) st =
     (if deviceFlags dev AND NonBlocking \<noteq> 0
      then (case onEventSubDeviceDataAvailable ops dev rs (fst (process_event ops st e)) of
              Inl c \<Rightarrow> Inl c
            | Inr (st2, es2) \<Rightarrow> Inr (st2, Call_resetState # es2))
      else Inr (fst (process_event ops st e), [Call_resetState]))"
proof -
  obtain st1 es1 where pe: "process_event ops st e = (st1, es1)"
    by (cases "process_event ops st e")
  have "snd (process_event ops st e) = [Call_resetState]"
    using assms by (simp add: process_event_not_syn)
  with pe have es1: "es1 = [Call_resetState]" by simp
  have "\<not> buf_size \<le> buf_pos (inputBuffer (conn st))"
    using assms(1) by simp
  with pe es1 show ?thesis
    by (simp split: sum.splits)
qed


subsection \<open>The write position stays inside the buffer\<close>

text \<open>
  C5: from a write position inside the buffer, a call of the handler returns for every
  list of read results without reaching \<^verbatim>\<open>std::out_of_range\<close> and leaves the
  position inside the buffer, and so does any sequence of notifications. The records
  buffered afterwards and the number of \<^verbatim>\<open>resetState\<close> calls among the effects are
  the ones the specification's frame buffer gives for the records the call read (for a
  sequence of notifications of an enabled notifier: the records they delivered), and
  the input mapper is the one those calls produce. When a record other than a marker
  fills the last slot, the handler calls \<^verbatim>\<open>resetState\<close> of the input mapper, has no
  other effect for that record, and sets the position to zero, so that nothing is
  buffered; the call goes on from that state, with \<^verbatim>\<open>resetState\<close> as its first
  effect.
\<close>

theorem buffer_index_in_bounds:
  "buf_pos (inputBuffer (conn st)) < buf_size \<longrightarrow>
     (\<exists>st' es. onEventSubDeviceDataAvailable ops dev reads st = Inr (st', es)
         \<and> buf_pos (inputBuffer (conn st')) < buf_size
         \<and> buffered (inputBuffer (conn st'))
             = fst (demux_spec (buffered (inputBuffer (conn st)))
                      (records_read (deviceFlags dev AND NonBlocking \<noteq> 0) reads))
         \<and> count_list es Call_resetState
             = snd (demux_spec (buffered (inputBuffer (conn st)))
                      (records_read (deviceFlags dev AND NonBlocking \<noteq> 0) reads))
         \<and> mapper st' = apply_calls ops es (mapper st))
     \<and> (\<exists>st' es. notifications ops dev bursts st = Inr (st', es)
         \<and> buf_pos (inputBuffer (conn st')) < buf_size)
     \<and> (notifier (conn st) = Some True \<longrightarrow>
          (\<exists>st' es. notifications ops dev bursts st = Inr (st', es)
             \<and> buf_pos (inputBuffer (conn st')) < buf_size
             \<and> buffered (inputBuffer (conn st'))
                 = fst (demux_spec (buffered (inputBuffer (conn st)))
                          (records_delivered (deviceFlags dev AND NonBlocking \<noteq> 0) bursts))
             \<and> count_list es Call_resetState
                 = snd (demux_spec (buffered (inputBuffer (conn st)))
                          (records_delivered (deviceFlags dev AND NonBlocking \<noteq> 0) bursts))
             \<and> mapper st' = apply_calls ops es (mapper st)))
     \<and> (Suc (buf_pos (inputBuffer (conn st))) = buf_size \<and> ev_type e \<noteq> EV_SYN \<longrightarrow>
          snd (process_event ops st e) = [Call_resetState]
          \<and> mapper (fst (process_event ops st e)) = resetState ops (mapper st)
          \<and> buf_pos (inputBuffer (conn (fst (process_event ops st e)))) = 0
          \<and> buffered (inputBuffer (conn (fst (process_event ops st e)))) = []
          \<and> onEventSubDeviceDataAvailable ops dev (ReadOk e # rs) st =
              (if deviceFlags dev AND NonBlocking \<noteq> 0
               then (case onEventSubDeviceDataAvailable ops dev rs (fst (process_event ops st e)) of
                       Inl c \<Rightarrow> Inl c
                     | Inr (st2, es2) \<Rightarrow> Inr (st2, Call_resetState # es2))
               else Inr (fst (process_event ops st e), [Call_resetState])))"
proof (intro impI conjI)
  assume pos: "buf_pos (inputBuffer (conn st)) < buf_size"
  from handler_refines [OF pos, of ops dev reads]
  show "\<exists>st' es. onEventSubDeviceDataAvailable ops dev reads st = Inr (st', es)
         \<and> buf_pos (inputBuffer (conn st')) < buf_size
         \<and> buffered (inputBuffer (conn st'))
             = fst (demux_spec (buffered (inputBuffer (conn st)))
                      (records_read (deviceFlags dev AND NonBlocking \<noteq> 0) reads))
         \<and> count_list es Call_resetState
             = snd (demux_spec (buffered (inputBuffer (conn st)))
                      (records_read (deviceFlags dev AND NonBlocking \<noteq> 0) reads))
         \<and> mapper st' = apply_calls ops es (mapper st)"
    by blast
  from notifications_returns [OF pos, of ops dev bursts]
  show "\<exists>st' es. notifications ops dev bursts st = Inr (st', es)
         \<and> buf_pos (inputBuffer (conn st')) < buf_size" .
  {
    assume en: "notifier (conn st) = Some True"
    from notifications_refines [OF pos en, of ops dev bursts]
    show "\<exists>st' es. notifications ops dev bursts st = Inr (st', es)
             \<and> buf_pos (inputBuffer (conn st')) < buf_size
             \<and> buffered (inputBuffer (conn st'))
                 = fst (demux_spec (buffered (inputBuffer (conn st)))
                          (records_delivered (deviceFlags dev AND NonBlocking \<noteq> 0) bursts))
             \<and> count_list es Call_resetState
                 = snd (demux_spec (buffered (inputBuffer (conn st)))
                          (records_delivered (deviceFlags dev AND NonBlocking \<noteq> 0) bursts))
             \<and> mapper st' = apply_calls ops es (mapper st)" .
  }
  {
    assume ov: "Suc (buf_pos (inputBuffer (conn st))) = buf_size \<and> ev_type e \<noteq> EV_SYN"
    then show "snd (process_event ops st e) = [Call_resetState]"
      "mapper (fst (process_event ops st e)) = resetState ops (mapper st)"
      "buf_pos (inputBuffer (conn (fst (process_event ops st e)))) = 0"
      "buffered (inputBuffer (conn (fst (process_event ops st e)))) = []"
      by (simp_all add: process_event_not_syn buffered_def)
    from ov show "onEventSubDeviceDataAvailable ops dev (ReadOk e # rs) st =
              (if deviceFlags dev AND NonBlocking \<noteq> 0
               then (case onEventSubDeviceDataAvailable ops dev rs (fst (process_event ops st e)) of
                       Inl c \<Rightarrow> Inl c
                     | Inr (st2, es2) \<Rightarrow> Inr (st2, Call_resetState # es2))
               else Inr (fst (process_event ops st e), [Call_resetState]))"
      by (intro handler_overflow) simp_all
  }
qed

lemma event5_eleven_facts:
  "buffered (inputBuffer (conn event5_eleven)) = replicate 11 (mk_event EV_KEY KEY_RIGHT 1)"
  "notifier (conn event5_eleven) = Some True"
  "deviceFlags event5_dev AND NonBlocking \<noteq> 0"
  by code_simp+

lemma eleven_demux:
  "demux_spec (replicate 11 (mk_event EV_KEY KEY_RIGHT 1))
     [mk_event EV_KEY KEY_RIGHT 1, mk_event EV_KEY KEY_RIGHT 1]
   = ([mk_event EV_KEY KEY_RIGHT 1], 1)"
  by code_simp

theorem buffer_index_in_bounds_witness:
  "buf_pos (inputBuffer (conn event5_eleven)) < buf_size
   \<and> notifier (conn event5_eleven) = Some True
   \<and> Suc (buf_pos (inputBuffer (conn event5_eleven))) = buf_size
   \<and> ev_type (mk_event EV_KEY KEY_RIGHT 1) \<noteq> EV_SYN
   \<and> snd (process_event ops_flag event5_eleven (mk_event EV_KEY KEY_RIGHT 1)) = [Call_resetState]
   \<and> buf_pos (inputBuffer (conn (fst (process_event ops_flag event5_eleven (mk_event EV_KEY KEY_RIGHT 1))))) = 0
   \<and> (\<exists>st' es. onEventSubDeviceDataAvailable ops_flag event5_dev
          [ReadOk (mk_event EV_KEY KEY_RIGHT 1), ReadOk (mk_event EV_KEY KEY_RIGHT 1)] event5_eleven = Inr (st', es)
        \<and> buf_pos (inputBuffer (conn st')) = 1
        \<and> buffered (inputBuffer (conn st')) = [mk_event EV_KEY KEY_RIGHT 1]
        \<and> count_list es Call_resetState = 1)
   \<and> (\<exists>st' es. notifications ops_flag event5_dev
          [[ReadOk (mk_event EV_KEY KEY_RIGHT 1)], [ReadOk (mk_event EV_KEY KEY_RIGHT 1)]] event5_eleven = Inr (st', es)
        \<and> buf_pos (inputBuffer (conn st')) = 1
        \<and> buffered (inputBuffer (conn st')) = [mk_event EV_KEY KEY_RIGHT 1]
        \<and> count_list es Call_resetState = 1)"
proof -
  let ?k = "mk_event EV_KEY KEY_RIGHT 1"
  have p: "buf_pos (inputBuffer (conn event5_eleven)) = 11"
    by (simp add: event5_eleven_def)
  have k: "ev_type ?k \<noteq> EV_SYN"
    by (simp add: mk_event_def EV_KEY_def EV_SYN_def)
  note inst = buffer_index_in_bounds [where st=event5_eleven and ops=ops_flag and dev=event5_dev
        and e="?k" and reads="[ReadOk ?k, ReadOk ?k]" and bursts="[[ReadOk ?k], [ReadOk ?k]]"
        and rs="[]"]
  have step: "snd (process_event ops_flag event5_eleven ?k) = [Call_resetState]"
    "buf_pos (inputBuffer (conn (fst (process_event ops_flag event5_eleven ?k)))) = 0"
    using inst p k by (simp_all add: buf_size_def)
  from inst p obtain st' es where
    h: "onEventSubDeviceDataAvailable ops_flag event5_dev [ReadOk ?k, ReadOk ?k] event5_eleven = Inr (st', es)"
    "buffered (inputBuffer (conn st'))
       = fst (demux_spec (buffered (inputBuffer (conn event5_eleven)))
                (records_read (deviceFlags event5_dev AND NonBlocking \<noteq> 0) [ReadOk ?k, ReadOk ?k]))"
    "count_list es Call_resetState
       = snd (demux_spec (buffered (inputBuffer (conn event5_eleven)))
                (records_read (deviceFlags event5_dev AND NonBlocking \<noteq> 0) [ReadOk ?k, ReadOk ?k]))"
    by (auto simp: buf_size_def)
  have hb: "buffered (inputBuffer (conn st')) = [?k]" "count_list es Call_resetState = 1"
    using h(2,3) event5_eleven_facts(1,3) eleven_demux by simp_all
  have hp: "buf_pos (inputBuffer (conn st')) = 1"
    using hb(1) length_buffered [of "inputBuffer (conn st')"] by simp
  from inst p event5_eleven_facts(2) obtain st2 es2 where
    n: "notifications ops_flag event5_dev [[ReadOk ?k], [ReadOk ?k]] event5_eleven = Inr (st2, es2)"
    "buffered (inputBuffer (conn st2))
       = fst (demux_spec (buffered (inputBuffer (conn event5_eleven)))
                (records_delivered (deviceFlags event5_dev AND NonBlocking \<noteq> 0) [[ReadOk ?k], [ReadOk ?k]]))"
    "count_list es2 Call_resetState
       = snd (demux_spec (buffered (inputBuffer (conn event5_eleven)))
                (records_delivered (deviceFlags event5_dev AND NonBlocking \<noteq> 0) [[ReadOk ?k], [ReadOk ?k]]))"
    by (auto simp: buf_size_def)
  have nb: "buffered (inputBuffer (conn st2)) = [?k]" "count_list es2 Call_resetState = 1"
    using n(2,3) event5_eleven_facts(1,3) eleven_demux by simp_all
  have np: "buf_pos (inputBuffer (conn st2)) = 1"
    using nb(1) length_buffered [of "inputBuffer (conn st2)"] by simp
  show ?thesis
    using p k step h(1) hb hp n(1) nb np event5_eleven_facts(2)
    by (simp add: buf_size_def)
qed

subsection \<open>A failed read\<close>

lemma read_failed_connected:
  "m_device (spotlight st) \<noteq> None \<Longrightarrow> snd (read_failed dev st errno) = []"
  by (simp add: read_failed_def anySpotlightDeviceConnected_def)

text \<open>
  C2, which says that a read error other than \<^verbatim>\<open>EAGAIN\<close> on the only event
  connection of the connected device disables the notifier, defers the removal of the
  sub-device and emits \<^verbatim>\<open>anySpotlightDeviceConnectedChanged(false)\<close> exactly once.
  On the connected Spotlight, the handler of \<^verbatim>\<open>/dev/input/event5\<close> that reads
  \<^verbatim>\<open>ENODEV\<close> disables the notifier and defers the removal, but emits nothing:
  \<^verbatim>\<open>anySpotlightDeviceConnected()\<close> tests \<^verbatim>\<open>m_device\<close>, which is set. The
  deferred removal emits no signal either, and the device still counts as connected
  after it.
\<close>

theorem read_error_emits_no_presence_change:
  "(case onEventSubDeviceDataAvailable ops_flag event5_dev [ReadFail ENODEV] event5_handler of
      Inl c \<Rightarrow> None
    | Inr (st', es) \<Rightarrow>
        map_option
          (\<lambda>s''. (es, count_list es (anySpotlightDeviceConnectedChanged False),
                  notifier (conn st'), deferred (spotlight st'),
                  anySpotlightDeviceConnected s''))
          (removeSubDeviceConnection (spotlight st') ''/dev/input/event5''))
   = Some ([], 0, Some False, [''/dev/input/event5''], True)"
  by code_simp

section \<open>Connecting\<close>

subsection \<open>What the two loops count\<close>

lemma openEvent_fields:
  assumes "openEventSubDeviceConnection os s subdev = (c, subdev1, es)"
  shows "DeviceFile subdev1 = DeviceFile subdev" "subdev_type subdev1 = subdev_type subdev"
    "DeviceReadable subdev1 = DeviceReadable subdev" "DeviceWritable subdev1 = DeviceWritable subdev"
    "deviceConnected i nm \<notin> set es"
  using assms
  by (auto simp: openEventSubDeviceConnection_def Let_def split: if_splits option.splits)

lemma openHidraw_fields:
  assumes "openHidrawSubDeviceConnection os subdev = (c, subdev1, es)"
  shows "DeviceFile subdev1 = DeviceFile subdev" "subdev_type subdev1 = subdev_type subdev"
    "DeviceReadable subdev1 = DeviceReadable subdev" "DeviceWritable subdev1 = DeviceWritable subdev"
    "deviceConnected i nm \<notin> set es"
  using assms
  by (auto simp: openHidrawSubDeviceConnection_def Let_def split: if_splits)

lemma ConnectEventSubDevices_count:
  "ConnectEventSubDevices os s dev sds = (n, sds', es) \<Longrightarrow>
     n = int (length (filter event_connected sds')) \<and> (\<forall>i nm. deviceConnected i nm \<notin> set es)"
proof (induction sds arbitrary: n sds' es)
  case Nil
  then show ?case by simp
next
  case (Cons subdev rest)
  obtain n0 rest' es0 where rec: "ConnectEventSubDevices os s dev rest = (n0, rest', es0)"
    by (cases "ConnectEventSubDevices os s dev rest")
  from Cons.IH [OF rec] have ih: "n0 = int (length (filter event_connected rest'))"
    "\<forall>i nm. deviceConnected i nm \<notin> set es0"
    by simp_all
  show ?case
  proof (cases "subdev_type subdev = Event \<and> DeviceReadable subdev \<and> length (DeviceFile subdev) > 0")
    case False
    with Cons.prems rec have "n = n0" "sds' = subdev # rest'" "es = es0"
      by auto
    moreover have "\<not> event_connected subdev"
      using False by (auto simp: event_connected_def)
    ultimately show ?thesis using ih by simp
  next
    case elig: True
    show ?thesis
    proof (cases "notifier_enabled subdev")
      case True
      with Cons.prems rec elig have "n = n0 + 1" "sds' = subdev # rest'" "es = es0"
        by auto
      moreover have "event_connected subdev"
        using elig True by (auto simp: event_connected_def)
      ultimately show ?thesis using ih by simp
    next
      case False
      obtain c subdev1 es1 where op: "openEventSubDeviceConnection os s subdev = (c, subdev1, es1)"
        by (cases "openEventSubDeviceConnection os s subdev")
      let ?subdev2 = "subdev1\<lparr>connection := Some (c\<lparr>im := eventIM dev\<rparr>)\<rparr>"
      note f = openEvent_fields [OF op]
      have type2: "subdev_type ?subdev2 = Event" "DeviceReadable ?subdev2" "DeviceFile ?subdev2 \<noteq> []"
        using elig f by auto
      show ?thesis
      proof (cases "notifier_enabled ?subdev2 \<and> addInputEventHandler ?subdev2")
        case True
        with Cons.prems rec elig False op
        have "n = n0 + 1" "sds' = ?subdev2 # rest'"
          "es = es1 @ [subDeviceConnected (dev_id dev) (name dev) (DeviceFile ?subdev2)] @ es0"
          by auto
        moreover have "event_connected ?subdev2"
          using True type2 by (simp add: event_connected_def)
        ultimately show ?thesis using ih f(5) by simp
      next
        case ncon: False
        with Cons.prems rec elig False op
        have "n = n0" "sds' = ?subdev2 # rest'" "es = es1 @ es0"
          by auto
        moreover have "\<not> notifier_enabled ?subdev2"
          using ncon type2 by (auto simp: addInputEventHandler_def notifier_enabled_def)
        then have "\<not> event_connected ?subdev2"
          by (simp add: event_connected_def)
        ultimately show ?thesis using ih f(5) by simp
      qed
    qed
  qed
qed

lemma ConnectHidrawSubDevices_count:
  "ConnectHidrawSubDevices os sds = (n, sds', h, es) \<Longrightarrow>
     (n = 0 \<or> n = 1)
     \<and> (0 < n \<longleftrightarrow> (\<exists>sd\<in>set sds'. hidraw_connected sd))
     \<and> ((\<exists>sd\<in>set sds'. event_connected sd) \<longleftrightarrow> (\<exists>sd\<in>set sds. event_connected sd))
     \<and> (\<forall>i nm. deviceConnected i nm \<notin> set es)"
proof (induction sds arbitrary: n sds' h es)
  case Nil
  then show ?case by simp
next
  case (Cons subdev rest)
  obtain n0 rest' h0 es0 where rec: "ConnectHidrawSubDevices os rest = (n0, rest', h0, es0)"
    by (cases "ConnectHidrawSubDevices os rest") auto
  note ih = Cons.IH [OF rec]
  show ?case
  proof (cases "subdev_type subdev = Hidraw \<and> DeviceWritable subdev \<and> DeviceReadable subdev
         \<and> length (DeviceFile subdev) > 0")
    case False
    with Cons.prems rec have "n = n0" "sds' = subdev # rest'" "es = es0"
      by auto
    moreover have "\<not> hidraw_connected subdev"
      using False by (auto simp: hidraw_connected_def)
    ultimately show ?thesis using ih by auto
  next
    case elig: True
    obtain c subdev1 es1 where op: "openHidrawSubDeviceConnection os subdev = (c, subdev1, es1)"
      by (cases "openHidrawSubDeviceConnection os subdev")
    let ?subdev2 = "subdev1\<lparr>connection := Some c\<rparr>"
    note f = openHidraw_fields [OF op]
    have type2: "subdev_type ?subdev2 = Hidraw" "DeviceReadable ?subdev2" "DeviceWritable ?subdev2"
      "DeviceFile ?subdev2 \<noteq> []"
      using elig f by auto
    have noev: "\<not> event_connected subdev" "\<not> event_connected ?subdev2"
      using elig type2 by (auto simp: event_connected_def)
    show ?thesis
    proof (cases "notifier_enabled ?subdev2 \<and> fd c \<noteq> 0 \<and> addInputHidrawHandler ?subdev2")
      case True
      with Cons.prems elig op
      have "n = 1" "sds' = ?subdev2 # rest" "es = es1"
        by auto
      moreover have "hidraw_connected ?subdev2"
        using True type2 by (simp add: hidraw_connected_def notifier_enabled_def)
      ultimately show ?thesis using noev f(5) by auto
    next
      case ncon: False
      with Cons.prems rec elig op
      have "n = n0" "sds' = ?subdev2 # rest'" "es = es1 @ es0"
        by auto
      moreover have "\<not> hidraw_connected ?subdev2"
        using ncon type2
        by (auto simp: addInputHidrawHandler_def notifier_enabled_def hidraw_connected_def
            split: option.splits)
      ultimately show ?thesis using ih noev f(5) by auto
    qed
  qed
qed

lemma connectSubDevices_result:
  assumes "m_device s = Some d" "connectSubDevices os s = (n, s', es)"
  shows "\<exists>d'. m_device s' = Some d' \<and> dev_id d' = dev_id d \<and> name d' = name d
           \<and> (0 < n \<longleftrightarrow> (\<exists>sd\<in>set (subDevices d'). event_connected sd)
                          \<and> (\<exists>sd\<in>set (subDevices d'). hidraw_connected sd))
           \<and> (\<forall>i nm. deviceConnected i nm \<notin> set es)"
proof (cases "length (subDevices d) = 0")
  case True
  with assms show ?thesis
    by (auto simp: connectSubDevices_def)
next
  case False
  obtain n1 subs1 es1 where ev: "ConnectEventSubDevices os s d (subDevices d) = (n1, subs1, es1)"
    by (cases "ConnectEventSubDevices os s d (subDevices d)")
  obtain n2 subs2 h es2 where hr: "ConnectHidrawSubDevices os subs1 = (n2, subs2, h, es2)"
    by (cases "ConnectHidrawSubDevices os subs1") auto
  let ?d' = "d\<lparr>subDevices := subs2, hidrwNode := (case h of None \<Rightarrow> hidrwNode d | Some n \<Rightarrow> n)\<rparr>"
  from assms False ev hr
  have res: "s' = s\<lparr>m_device := Some ?d'\<rparr>" "es = es1 @ es2"
    "n = (if n1 > 0 \<and> n2 > 0 then n1 + n2 else 0)"
    by (auto simp: connectSubDevices_def Let_def split: if_splits)
  from ConnectEventSubDevices_count [OF ev]
  have e: "n1 = int (length (filter event_connected subs1))" "\<forall>i nm. deviceConnected i nm \<notin> set es1"
    by simp_all
  then have e1: "0 < n1 \<longleftrightarrow> (\<exists>sd\<in>set subs1. event_connected sd)"
    by (auto simp: filter_empty_conv)
  from ConnectHidrawSubDevices_count [OF hr]
  have hc: "n2 = 0 \<or> n2 = 1" "0 < n2 \<longleftrightarrow> (\<exists>sd\<in>set subs2. hidraw_connected sd)"
    "(\<exists>sd\<in>set subs2. event_connected sd) \<longleftrightarrow> (\<exists>sd\<in>set subs1. event_connected sd)"
    "\<forall>i nm. deviceConnected i nm \<notin> set es2"
    by simp_all
  have "0 \<le> n1" using e(1) by simp
  then have "0 < n \<longleftrightarrow> 0 < n1 \<and> 0 < n2"
    using res(3) hc(1) by auto
  then have "0 < n \<longleftrightarrow> (\<exists>sd\<in>set subs2. event_connected sd) \<and> (\<exists>sd\<in>set subs2. hidraw_connected sd)"
    using e1 hc(2,3) by simp
  moreover have "\<forall>i nm. deviceConnected i nm \<notin> set es"
    using res(2) e(2) hc(4) by simp
  ultimately show ?thesis
    using res(1) by simp
qed

subsection \<open>When connectDevice reports a connection\<close>

text \<open>
  The tree with the event interface only: the event sub-device is opened and counts as
  connected, and \<^verbatim>\<open>connectDevice\<close> emits no \<^verbatim>\<open>deviceConnected\<close>.
\<close>

theorem connectDevice_event_only_counterexample:
  "(case connectDevice gen_none sysfs_event_only os_ok Spotlight_initial DeviceId_default of
      (rc, s', es) \<Rightarrow>
        (rc, es,
         map_option (\<lambda>d. map (\<lambda>sd. (subdev_type sd, DeviceFile sd, event_connected sd)) (subDevices d))
           (m_device s')))
   = (0,
      [Call_open ''/dev/input/event5'' ReadOnly,
       subDeviceConnected usb_id ''Logitech USB Receiver'' ''/dev/input/event5''],
      Some [(Event, ''/dev/input/event5'', True)])
   \<and> deviceConnected usb_id ''Logitech USB Receiver''
        \<notin> set (snd (snd (connectDevice gen_none sysfs_event_only os_ok Spotlight_initial
                           DeviceId_default)))"
  by code_simp

text \<open>
  C1, amended: when the scan finds a device, \<^verbatim>\<open>connectDevice\<close> returns 0 and emits
  \<^verbatim>\<open>deviceConnected\<close> exactly when the device it leaves in \<^verbatim>\<open>m_device\<close> has at
  least one connected event sub-device and at least one connected hidraw sub-device.
\<close>

theorem connectDevice_connected_iff:
  assumes "devices (scanForDevices gen fs (additionalDevices s)) \<noteq> []"
  shows "fst (connectDevice gen fs os s devid) = 0
     \<and> (\<exists>d. m_device (fst (snd (connectDevice gen fs os s devid))) = Some d
          \<and> ((deviceConnected (dev_id d) (name d) \<in> set (snd (snd (connectDevice gen fs os s devid))))
               \<longleftrightarrow> (\<exists>sd\<in>set (subDevices d). event_connected sd)
                    \<and> (\<exists>sd\<in>set (subDevices d). hidraw_connected sd))
          \<and> ((\<exists>i nm. deviceConnected i nm \<in> set (snd (snd (connectDevice gen fs os s devid))))
               \<longleftrightarrow> (\<exists>sd\<in>set (subDevices d). event_connected sd)
                    \<and> (\<exists>sd\<in>set (subDevices d). hidraw_connected sd)))"
proof -
  from assms obtain first others where
    sc: "devices (scanForDevices gen fs (additionalDevices s)) = first # others"
    by (cases "devices (scanForDevices gen fs (additionalDevices s))") auto
  define s1 where "s1 = (if vendorId devid \<noteq> 0 \<and> productId devid \<noteq> 0
                       then (case find (\<lambda>dev. dev_id dev = devid) (first # others) of
                               Some dev \<Rightarrow> s\<lparr>m_device := Some dev\<rparr>
                             | None \<Rightarrow> s)
                       else s)"
  define d2 where "d2 = (case m_device s1 of None \<Rightarrow> first | Some d \<Rightarrow> d)"
  define s3 where "s3 = s1\<lparr>m_device := Some (d2\<lparr>eventIM := Some (im_count s1)\<rparr>),
                        im_count := Suc (im_count s1)\<rparr>"
  obtain n s4 es where cs: "connectSubDevices os s3 = (n, s4, es)"
    by (cases "connectSubDevices os s3")
  have m3: "m_device s3 = Some (d2\<lparr>eventIM := Some (im_count s1)\<rparr>)"
    by (simp add: s3_def)
  from connectSubDevices_result [OF m3 cs] obtain d' where
    d': "m_device s4 = Some d'" "dev_id d' = dev_id d2" "name d' = name d2"
    "0 < n \<longleftrightarrow> (\<exists>sd\<in>set (subDevices d'). event_connected sd)
                \<and> (\<exists>sd\<in>set (subDevices d'). hidraw_connected sd)"
    "\<forall>i nm. deviceConnected i nm \<notin> set es"
    by auto
  have res: "connectDevice gen fs os s devid =
      (if n > 0
       then (0, s4, es @ [deviceConnected (dev_id d2) (name d2)]
                      @ (if \<not> anySpotlightDeviceConnected s
                         then [anySpotlightDeviceConnectedChanged True] else []))
       else (0, s4, es))"
    unfolding connectDevice_def Let_def sc list.case
    unfolding s1_def [symmetric]
    unfolding d2_def [symmetric]
    unfolding s3_def [symmetric]
    unfolding cs by simp
  show ?thesis
  proof (cases "n > 0")
    case True
    with res d' show ?thesis by auto
  next
    case False
    with res d' show ?thesis by auto
  qed
qed

lemma connected_usb_effects:
  "snd (snd (connectDevice gen_none sysfs_usb os_ok Spotlight_initial DeviceId_default))
     = [Call_open ''/dev/input/event5'' ReadOnly,
        subDeviceConnected usb_id ''Logitech USB Receiver'' ''/dev/input/event5'',
        Call_open ''/dev/hidraw0'' ReadWrite,
        deviceConnected usb_id ''Logitech USB Receiver'',
        anySpotlightDeviceConnectedChanged True]"
  by code_simp

lemma connected_usb_device:
  "map_option (\<lambda>d. (dev_id d, name d))
     (m_device (fst (snd (connectDevice gen_none sysfs_usb os_ok Spotlight_initial DeviceId_default))))
     = Some (usb_id, ''Logitech USB Receiver'')"
  by code_simp

theorem connectDevice_connected_iff_witness:
  "devices (scanForDevices gen_none sysfs_usb (additionalDevices Spotlight_initial)) \<noteq> []
   \<and> (\<exists>d. m_device (fst (snd (connectDevice gen_none sysfs_usb os_ok Spotlight_initial
                                  DeviceId_default))) = Some d
        \<and> deviceConnected (dev_id d) (name d)
            \<in> set (snd (snd (connectDevice gen_none sysfs_usb os_ok Spotlight_initial
                               DeviceId_default)))
        \<and> (\<exists>sd\<in>set (subDevices d). event_connected sd)
        \<and> (\<exists>sd\<in>set (subDevices d). hidraw_connected sd))"
proof -
  have ne: "devices (scanForDevices gen_none sysfs_usb (additionalDevices Spotlight_initial)) \<noteq> []"
    using usb_scan by (auto simp: Spotlight_initial_def)
  from connectDevice_connected_iff [OF ne, of os_ok DeviceId_default]
  obtain d where d: "m_device (fst (snd (connectDevice gen_none sysfs_usb os_ok Spotlight_initial
                                  DeviceId_default))) = Some d"
    and iff: "(deviceConnected (dev_id d) (name d)
        \<in> set (snd (snd (connectDevice gen_none sysfs_usb os_ok Spotlight_initial DeviceId_default))))
      \<longleftrightarrow> (\<exists>sd\<in>set (subDevices d). event_connected sd)
           \<and> (\<exists>sd\<in>set (subDevices d). hidraw_connected sd)"
    by blast
  from connected_usb_device d have "dev_id d = usb_id" "name d = ''Logitech USB Receiver''"
    by simp_all
  then have "deviceConnected (dev_id d) (name d)
        \<in> set (snd (snd (connectDevice gen_none sysfs_usb os_ok Spotlight_initial DeviceId_default)))"
    by (simp add: connected_usb_effects)
  with ne d iff show ?thesis by blast
qed

subsection \<open>Connecting again\<close>

text \<open>
  C3, which says that \<^verbatim>\<open>connectDevice\<close> on a device that is already connected opens
  no descriptor and emits no second \<^verbatim>\<open>deviceConnected\<close>. On the connected
  Spotlight, \<^verbatim>\<open>connectDevice()\<close> keeps the event connection but opens
  \<^verbatim>\<open>/dev/hidraw0\<close> again and emits \<^verbatim>\<open>deviceConnected\<close> again; called with the
  id of the connected device, it replaces \<^verbatim>\<open>m_device\<close> by the scanned device and
  opens both device files again.
\<close>

theorem connectDevice_again_reconnects:
  "(case connectDevice gen_none sysfs_usb os_ok connected_usb DeviceId_default of
      (rc, s', es) \<Rightarrow> (rc, es))
   = (0, [Call_open ''/dev/hidraw0'' ReadWrite, deviceConnected usb_id ''Logitech USB Receiver''])
   \<and> (case connectDevice gen_none sysfs_usb os_ok connected_usb usb_id of
      (rc, s', es) \<Rightarrow> (rc, es))
   = (0, [Call_open ''/dev/input/event5'' ReadOnly,
          subDeviceConnected usb_id ''Logitech USB Receiver'' ''/dev/input/event5'',
          Call_open ''/dev/hidraw0'' ReadWrite,
          deviceConnected usb_id ''Logitech USB Receiver''])"
  by code_simp

end
